theory Spec2Isabelle
  imports Main "HOL-Library.Sublist" "HOL-Library.AList"
begin

section \<open>Python strings\<close>

text \<open>
  A Python \<open>str\<close> is modelled as a \<open>string\<close>; a \<open>char\<close> stands for the Unicode code
  point of the same number (0 to 255). The character classes below are those of
  \<open>str.isspace\<close>, \<open>str.isalnum\<close>, \<open>str.isdigit\<close> and \<open>str.lower\<close> on this range.
  Text with code points above 255 is outside the model.
\<close>

definition py_isspace :: "char \<Rightarrow> bool" where
  "py_isspace c =
     (let n = (of_char c :: nat)
      in (9 \<le> n \<and> n \<le> 13) \<or> (28 \<le> n \<and> n \<le> 32) \<or> n = 133 \<or> n = 160)"

definition py_isalpha :: "char \<Rightarrow> bool" where
  "py_isalpha c =
     (let n = (of_char c :: nat)
      in (65 \<le> n \<and> n \<le> 90) \<or> (97 \<le> n \<and> n \<le> 122) \<or> n = 170 \<or> n = 181 \<or> n = 186
         \<or> (192 \<le> n \<and> n \<noteq> 215 \<and> n \<noteq> 247))"

definition py_isdecimal :: "char \<Rightarrow> bool" where
  "py_isdecimal c = (let n = (of_char c :: nat) in 48 \<le> n \<and> n \<le> 57)"

definition py_isdigit_char :: "char \<Rightarrow> bool" where
  "py_isdigit_char c =
     (let n = (of_char c :: nat) in py_isdecimal c \<or> n = 178 \<or> n = 179 \<or> n = 185)"

definition py_isalnum :: "char \<Rightarrow> bool" where
  "py_isalnum c =
     (let n = (of_char c :: nat)
      in py_isalpha c \<or> py_isdigit_char c \<or> n = 188 \<or> n = 189 \<or> n = 190)"

definition py_lower_char :: "char \<Rightarrow> char" where
  "py_lower_char c =
     (let n = (of_char c :: nat)
      in if (65 \<le> n \<and> n \<le> 90) \<or> (192 \<le> n \<and> n \<le> 222 \<and> n \<noteq> 215)
         then char_of (n + 32) else c)"

definition lower :: "string \<Rightarrow> string" where
  "lower s = map py_lower_char s"

definition lstrip :: "string \<Rightarrow> string" where
  "lstrip s = dropWhile py_isspace s"

definition rstrip :: "string \<Rightarrow> string" where
  "rstrip s = rev (dropWhile py_isspace (rev s))"

definition strip :: "string \<Rightarrow> string" where
  "strip s = rstrip (lstrip s)"

definition startswith :: "string \<Rightarrow> string \<Rightarrow> bool" where
  "startswith s p = prefix p s"

section \<open>Credential routing\<close>

text \<open>The three role-scoped clients; \<open>client\<close> is the module's default (line 98).\<close>

datatype wl_client = planner_client | executor_client | reviewer_client

definition client :: wl_client where
  "client = planner_client"

definition client_for_attestation :: "string \<Rightarrow> wl_client" where
  "client_for_attestation kind =
     (let normalized = lower (strip kind)
      in if startswith normalized ''review.'' \<or> startswith normalized ''acceptance.''
            \<or> startswith normalized ''security.'' \<or> normalized = ''iteration.approved''
         then reviewer_client
         else if startswith normalized ''ci.'' then executor_client
         else if startswith normalized ''workshop.'' then planner_client
         else client)"

section \<open>Slug derivation\<close>

text \<open>
  \<open>_slugify\<close> (lines 688 to 699): the loop over \<open>value.lower()\<close> with its two variables
  \<open>safe\<close> and \<open>last_dash\<close>, then \<open>"".join(safe).strip("-")\<close> and the placeholder.
\<close>

fun slugify_loop :: "string \<Rightarrow> string \<Rightarrow> bool \<Rightarrow> string" where
  "slugify_loop [] safe last_dash = safe"
| "slugify_loop (ch # rest) safe last_dash =
     (if py_isalnum ch then slugify_loop rest (safe @ [ch]) False
      else if \<not> last_dash then slugify_loop rest (safe @ [CHR ''-'']) True
      else slugify_loop rest safe last_dash)"

text \<open>\<open>s.strip(chars)\<close>: drop the characters of \<open>chars\<close> from both ends.\<close>

definition strip_chars :: "string \<Rightarrow> string \<Rightarrow> string" where
  "strip_chars s chars =
     rev (dropWhile (\<lambda>c. c \<in> set chars) (rev (dropWhile (\<lambda>c. c \<in> set chars) s)))"

definition slugify :: "string \<Rightarrow> string" where
  "slugify v =
     (let slug = strip_chars (slugify_loop (lower v) [] False) ''-''
      in if slug = [] then ''feature'' else slug)"

text \<open>
  The derivation as the specification words it: lower-case, replace every maximal run of
  non-alphanumeric characters by one hyphen, trim the hyphens at both ends, and fall back
  to the placeholder when nothing is left.
\<close>

function collapse_runs :: "string \<Rightarrow> string" where
  "collapse_runs [] = []"
| "collapse_runs (c # cs) =
     (if py_isalnum c then c # collapse_runs cs
      else CHR ''-'' # collapse_runs (dropWhile (\<lambda>x. \<not> py_isalnum x) cs))"
  by pat_completeness auto
termination
  by (relation "measure length") (auto simp: length_dropWhile_le less_Suc_eq_le)

definition trim_hyphens :: "string \<Rightarrow> string" where
  "trim_hyphens s =
     rev (dropWhile (\<lambda>c. c = CHR ''-'') (rev (dropWhile (\<lambda>c. c = CHR ''-'') s)))"

definition slugify_spec :: "string \<Rightarrow> string" where
  "slugify_spec v =
     (let t = trim_hyphens (collapse_runs (lower v))
      in if t = [] then ''feature'' else t)"


section \<open>Regular expressions\<close>

text \<open>
  The two patterns of the program, as abstract syntax, and Python's backtracking matcher:
  \<open>rx_match\<close> lists the ways a pattern matches a prefix of the text, by the text left
  over, in the order \<open>re\<close> tries them (left alternative first, greedy repetition first).
  \<open>ic\<close> is the flag \<open>re.IGNORECASE\<close>; \<open>Any\<close> is the dot under \<open>re.DOTALL\<close>.
\<close>

datatype rx =
    Eps
  | Lit char
  | Any
  | OneOf "char list"
  | Seq rx rx
  | Alt rx rx
  | Star rx

definition chr_eq :: "bool \<Rightarrow> char \<Rightarrow> char \<Rightarrow> bool" where
  "chr_eq ic c x = (if ic then py_lower_char c = py_lower_char x else c = x)"

function rx_match :: "bool \<Rightarrow> rx \<Rightarrow> string \<Rightarrow> string list" where
  "rx_match ic Eps s = [s]"
| "rx_match ic (Lit c) s =
     (case s of [] \<Rightarrow> [] | x # xs \<Rightarrow> if chr_eq ic c x then [xs] else [])"
| "rx_match ic Any s = (case s of [] \<Rightarrow> [] | x # xs \<Rightarrow> [xs])"
| "rx_match ic (OneOf cs) s =
     (case s of [] \<Rightarrow> [] | x # xs \<Rightarrow> if list_ex (\<lambda>c. chr_eq ic c x) cs then [xs] else [])"
| "rx_match ic (Seq a b) s = concat (map (rx_match ic b) (rx_match ic a s))"
| "rx_match ic (Alt a b) s = rx_match ic a s @ rx_match ic b s"
| "rx_match ic (Star a) s =
     concat (map (rx_match ic (Star a))
       (filter (\<lambda>s'. length s' < length s) (rx_match ic a s))) @ [s]"
  by pat_completeness auto
termination
  by (relation "measures [\<lambda>(ic, r, s). size r, \<lambda>(ic, r, s). length s]") auto

declare rx_match.simps(7) [simp del]

definition Plus :: "rx \<Rightarrow> rx" where
  "Plus a = Seq a (Star a)"

fun Lits :: "string \<Rightarrow> rx" where
  "Lits [] = Eps"
| "Lits (c # cs) = Seq (Lit c) (Lits cs)"

text \<open>
  A pattern that ends in its only capture group is given as the part before the group and
  the group. \<open>rx_group_at\<close> is \<open>group(1)\<close> of the first match that starts at the head of
  the text, \<open>re_search_group\<close> that of \<open>re.search\<close>: the leftmost start with a match.
\<close>

definition rx_group_at :: "bool \<Rightarrow> rx \<Rightarrow> rx \<Rightarrow> string \<Rightarrow> string option" where
  "rx_group_at ic pre grp s =
     (case concat (map (\<lambda>r1. map (\<lambda>r2. take (length r1 - length r2) r1) (rx_match ic grp r1))
                    (rx_match ic pre s)) of
        [] \<Rightarrow> None
      | g # _ \<Rightarrow> Some g)"

fun re_search_group :: "bool \<Rightarrow> rx \<Rightarrow> rx \<Rightarrow> string \<Rightarrow> string option" where
  "re_search_group ic pre grp [] = rx_group_at ic pre grp []"
| "re_search_group ic pre grp (c # cs) =
     (case rx_group_at ic pre grp (c # cs) of
        Some g \<Rightarrow> Some g
      | None \<Rightarrow> re_search_group ic pre grp cs)"

section \<open>Iteration identifier\<close>

text \<open>
  \<open>_extract_iteration_id\<close> (lines 649 to 653). The pattern is the raw string
  \<^verbatim>\<open>r"iteration id\\s*[:\\-]\\s*([\\w-]+)"\<close>: in a raw string each \<^verbatim>\<open>\\\<close> stays two
  characters, which \<open>re\<close> reads as one escaped backslash. So the pattern is: the letters
  \<open>iteration id\<close>, a backslash, any number of \<open>s\<close>, one of colon, backslash and hyphen, a
  backslash, any number of \<open>s\<close>, and the group: one or more of backslash, \<open>w\<close> and hyphen.
\<close>

definition backslash :: char where
  "backslash = CHR 0x5C"

definition iteration_id_prefix :: rx where
  "iteration_id_prefix =
     Seq (Lits ''iteration id'')
       (Seq (Lit backslash)
         (Seq (Star (Lit CHR ''s''))
           (Seq (OneOf [CHR '':'', backslash, CHR ''-''])
             (Seq (Lit backslash) (Star (Lit CHR ''s''))))))"

definition iteration_id_group :: rx where
  "iteration_id_group = Plus (OneOf [backslash, CHR ''w'', CHR ''-''])"

definition extract_iteration_id :: "string \<Rightarrow> string option" where
  "extract_iteration_id plan =
     (case re_search_group True iteration_id_prefix iteration_id_group plan of
        None \<Rightarrow> None
      | Some g \<Rightarrow> Some (strip g))"

section \<open>Python values and JSON text\<close>

text \<open>
  The values \<open>json.loads\<close> returns and the backend's JSON bodies: \<open>PNone\<close> is Python's
  \<open>None\<close> (also what JSON \<open>null\<close> decodes to), a \<open>PDict\<close> lists its items in insertion
  order, read through \<open>map_of\<close>. Floats are not modelled.
\<close>

datatype pyval =
    PNone
  | PBool bool
  | PInt int
  | PStr string
  | PList "pyval list"
  | PDict "(string \<times> pyval) list"

text \<open>\<open>d.get(key, default)\<close> on a dict.\<close>

definition dict_get :: "(string \<times> pyval) list \<Rightarrow> string \<Rightarrow> pyval \<Rightarrow> pyval" where
  "dict_get d k dflt = (case map_of d k of None \<Rightarrow> dflt | Some v \<Rightarrow> v)"

text \<open>Truth value of a Python object, as \<open>if x\<close>, \<open>not x\<close> and \<open>x or y\<close> test it.\<close>

fun truthy :: "pyval \<Rightarrow> bool" where
  "truthy PNone = False"
| "truthy (PBool b) = b"
| "truthy (PInt i) = (i \<noteq> 0)"
| "truthy (PStr s) = (s \<noteq> [])"
| "truthy (PList xs) = (xs \<noteq> [])"
| "truthy (PDict d) = (d \<noteq> [])"

definition dquote :: char where
  "dquote = CHR 0x22"

definition newline :: char where
  "newline = CHR 0x0A"

text \<open>The value of a string of decimal digits.\<close>

definition digits_value :: "string \<Rightarrow> int" where
  "digits_value ds = foldl (\<lambda>a c. 10 * a + (int (of_char c) - 48)) 0 ds"

text \<open>The exceptions the modelled code can end with.\<close>

datatype error =
    APIError int pyval
  | RuntimeError string
  | EOFError
  | ValueError
  | JSONDecodeError
  | RecursionError
  | AttributeError
  | KeyError string
  | TypeError
  | OtherError string

text \<open>
  \<open>json.loads\<close> is library code: the program is modelled over any decoder
  \<open>loads :: string \<Rightarrow> error + pyval\<close>, which gives the value decoded or the exception
  raised: \<open>JSONDecodeError\<close> for a text that is no JSON, and whatever else the library
  raises, such as \<open>ValueError\<close> for an integer of more than 4300 digits and
  \<open>RecursionError\<close> for nesting deeper than the interpreter allows. Neither of these two
  is a \<open>JSONDecodeError\<close>, so \<open>except json.JSONDecodeError\<close> does not catch them.

  To run the model on concrete texts, \<open>decoder_of\<close> makes a decoder from the list of the
  texts on which \<open>json.loads\<close> does not raise \<open>JSONDecodeError\<close>, each with what it gives.
\<close>

definition decoder_of :: "(string \<times> (error + pyval)) list \<Rightarrow> string \<Rightarrow> error + pyval" where
  "decoder_of table t = (case map_of table t of None \<Rightarrow> Inl JSONDecodeError | Some r \<Rightarrow> r)"

section \<open>Structured output extraction\<close>

text \<open>
  \<open>_extract_json_payload\<close> (lines 468 to 479): the whole text first, then the first match
  of \<^verbatim>\<open>(\{.*\}|\[.*\])\<close> under \<open>re.DOTALL\<close>. Each of the two \<open>try\<close> blocks catches
  \<open>json.JSONDecodeError\<close> only; any other exception of \<open>json.loads\<close> leaves the function.
  The value returned is a Python object, \<open>None\<close> included.
\<close>

definition json_span :: rx where
  "json_span =
     Alt (Seq (Lit CHR ''{'') (Seq (Star Any) (Lit CHR ''}'')))
         (Seq (Lit CHR ''['') (Seq (Star Any) (Lit CHR '']'')))"

definition extract_json_payload :: "(string \<Rightarrow> error + pyval) \<Rightarrow> string \<Rightarrow> error + pyval" where
  "extract_json_payload loads t =
     (case loads t of
        Inr v \<Rightarrow> Inr v
      | Inl e \<Rightarrow>
          if e \<noteq> JSONDecodeError then Inl e
          else
            (case re_search_group False Eps json_span t of
               None \<Rightarrow> Inr PNone
             | Some g \<Rightarrow>
                 (case loads g of
                    Inr v \<Rightarrow> Inr v
                  | Inl e' \<Rightarrow> if e' \<noteq> JSONDecodeError then Inl e' else Inr PNone)))"

text \<open>
  A text has a span from \<open>l\<close> to \<open>r\<close> when some \<open>l\<close> is followed, anywhere later, by an
  \<open>r\<close>: after the first \<open>l\<close> there is an \<open>r\<close>.
\<close>

definition has_span :: "char \<Rightarrow> char \<Rightarrow> string \<Rightarrow> bool" where
  "has_span l r text = (r \<in> set (tl (dropWhile (\<lambda>x. x \<noteq> l) text)))"

section \<open>State and the external collaborators\<close>

text \<open>
  What the client sends to the backend: \<open>GET tasks/{id}\<close>, \<open>POST tasks\<close> with a body, and
  the two writes of outcome fields. The reply is a status code and a JSON body.
\<close>

datatype request =
    GetTask string
  | PostTask pyval
  | PutWorkOutcomes string string pyval
  | AppendWorkOutcomes string string pyval

record http_response =
  status_code :: int
  body :: pyval

text \<open>
  \<open>_run_agent\<close> (lines 418 to 465) drives the language model through LangChain. The model
  keeps what the rest of the program observes of one run: the questions it puts through
  the tool \<open>ask_human_question\<close> (the only tool the callers modelled here pass), how it
  goes on from each answer or exception of the tool, and the text or the exception it
  ends with.
\<close>

datatype agent_run =
    Final string
  | Raise error
  | Ask string "string list option" "error + string \<Rightarrow> agent_run"

text \<open>
  The environment of a run: the configuration, the console, the backend behind the
  transport, the language model (the number is the count of earlier runs, so that the
  same prompt may be answered differently) and the clock.
\<close>

record 'w env =
  HUMAN_REVIEW_MODE :: string
  stdin_isatty :: bool
  backend :: "'w \<Rightarrow> request \<Rightarrow> http_response \<times> 'w"
  model_invoke :: "nat \<Rightarrow> string \<Rightarrow> string \<Rightarrow> error + string"
  model_agent :: "nat \<Rightarrow> string \<Rightarrow> string \<Rightarrow> agent_run"
  utcnow_isoformat :: "nat \<Rightarrow> string"

text \<open>
  The state: the backend's world, the global \<open>CURRENT_WORKSHOP_ID\<close>, the lines still to
  be read from standard input, the requests sent so far with the client that sent them,
  the agent runs started so far (system prompt, user input), and the clock's tick.
  What is printed is not modelled.
\<close>

record 'w state =
  world :: 'w
  CURRENT_WORKSHOP_ID :: "string option"
  stdin :: "string list"
  requests :: "(wl_client \<times> request) list"
  agent_calls :: "(string \<times> string) list"
  clock :: nat

type_synonym ('a, 'w) prog = "'w state \<Rightarrow> (error + 'a) \<times> 'w state"

definition ret :: "'a \<Rightarrow> ('a, 'w) prog" where
  "ret x = (\<lambda>st. (Inr x, st))"

definition throw :: "error \<Rightarrow> ('a, 'w) prog" where
  "throw e = (\<lambda>st. (Inl e, st))"

definition lift :: "error + 'a \<Rightarrow> ('a, 'w) prog" where
  "lift r = (\<lambda>st. (r, st))"

definition bind :: "('a, 'w) prog \<Rightarrow> ('a \<Rightarrow> ('b, 'w) prog) \<Rightarrow> ('b, 'w) prog" where
  "bind m f = (\<lambda>st. case m st of (Inl e, st') \<Rightarrow> (Inl e, st') | (Inr x, st') \<Rightarrow> f x st')"

section \<open>The backend client\<close>

text \<open>
  Modelled from the spec: \<open>_request\<close> of the client. The example's clients are
  \<open>WorklineClient\<close> objects of the module \<open>workline\<close>, which is not in src/. Following 6
  and 7 of the specification, a reply with a status from 200 to 299 returns its JSON body,
  and every other reply raises \<open>APIError\<close> carrying the status code and the body. The
  request is recorded with the client that sends it.
\<close>

definition client_request :: "'w env \<Rightarrow> wl_client \<Rightarrow> request \<Rightarrow> (pyval, 'w) prog" where
  "client_request env cl rq =
     (\<lambda>st. let (resp, w') = backend env (world st) rq;
               st' = st\<lparr>world := w', requests := requests st @ [(cl, rq)]\<rparr>
           in if 200 \<le> status_code resp \<and> status_code resp < 300
              then (Inr (body resp), st')
              else (Inl (APIError (status_code resp) (body resp)), st'))"

text \<open>
  Modelled from the spec: the client methods \<open>put_work_outcomes\<close> and
  \<open>append_work_outcomes\<close> are not in src/. Following 4.2 and 6 of the specification each
  is one write request for a named outcome field of a work-item, sent like every other
  request; its result is not used.
\<close>

definition put_work_outcomes ::
  "'w env \<Rightarrow> wl_client \<Rightarrow> string \<Rightarrow> string \<Rightarrow> pyval \<Rightarrow> (unit, 'w) prog" where
  "put_work_outcomes env cl task_id field v =
     bind (client_request env cl (PutWorkOutcomes task_id field v)) (\<lambda>_. ret ())"

text \<open>
  Modelled from the spec: \<open>append_work_outcomes\<close>, the client method (not in src/) that
  appends one entry to a list-valued outcome field, here the conversation log (4.2).
\<close>

definition append_work_outcomes ::
  "'w env \<Rightarrow> wl_client \<Rightarrow> string \<Rightarrow> string \<Rightarrow> pyval \<Rightarrow> (unit, 'w) prog" where
  "append_work_outcomes env cl task_id field entry =
     bind (client_request env cl (AppendWorkOutcomes task_id field entry)) (\<lambda>_. ret ())"

section \<open>External state access\<close>

text \<open>\<open>_get_task\<close> (lines 238 to 244).\<close>

definition get_task :: "'w env \<Rightarrow> string \<Rightarrow> (pyval, 'w) prog" where
  "get_task env task_id =
     (\<lambda>st. case client_request env client (GetTask task_id) st of
             (Inl (APIError code b), st') \<Rightarrow>
               if code = 404 then (Inr PNone, st') else (Inl (APIError code b), st')
           | (Inl e, st') \<Rightarrow> (Inl e, st')
           | (Inr data, st') \<Rightarrow> (Inr data, st'))"

text \<open>\<open>_create_problem_refinement_task\<close> (lines 247 to 255).\<close>

definition create_problem_refinement_task :: "'w env \<Rightarrow> string \<Rightarrow> (pyval, 'w) prog" where
  "create_problem_refinement_task env task_id =
     client_request env client
       (PostTask (PDict
          [(''id'', PStr task_id),
           (''title'', PStr ''Problem refinement''),
           (''type'', PStr ''workshop''),
           (''description'', PStr ''Capture the refined problem statement and assumptions.''),
           (''policy'', PDict [(''preset'', PStr ''workshop.problem_refinement'')])]))"

text \<open>\<open>_ensure_problem_refinement_task_exists\<close> (lines 263 to 268).\<close>

definition ensure_problem_refinement_task_exists :: "'w env \<Rightarrow> (pyval, 'w) prog" where
  "ensure_problem_refinement_task_exists env =
     bind (get_task env ''problem-refinement'') (\<lambda>task.
       if task = PNone then create_problem_refinement_task env ''problem-refinement''
       else ret task)"

text \<open>\<open>obj[key]\<close> and \<open>obj.get(key)\<close> on a value that need not be a dict.\<close>

definition subscript :: "pyval \<Rightarrow> string \<Rightarrow> error + pyval" where
  "subscript v k =
     (case v of
        PDict d \<Rightarrow> (case map_of d k of None \<Rightarrow> Inl (KeyError k) | Some x \<Rightarrow> Inr x)
      | _ \<Rightarrow> Inl TypeError)"

definition py_get :: "pyval \<Rightarrow> string \<Rightarrow> error + pyval" where
  "py_get v k = (case v of PDict d \<Rightarrow> Inr (dict_get d k PNone) | _ \<Rightarrow> Inl AttributeError)"

text \<open>\<open>ensure_problem_refinement_task\<close> (lines 258 to 260).\<close>

definition ensure_problem_refinement_task :: "'w env \<Rightarrow> (pyval, 'w) prog" where
  "ensure_problem_refinement_task env =
     bind (ensure_problem_refinement_task_exists env) (\<lambda>task. lift (subscript task ''id''))"

text \<open>\<open>ensure_workshop_task\<close> (lines 271 to 282).\<close>

definition ensure_workshop_task ::
  "'w env \<Rightarrow> string \<Rightarrow> string \<Rightarrow> string \<Rightarrow> string \<Rightarrow> (pyval, 'w) prog" where
  "ensure_workshop_task env task_id title preset description =
     bind (get_task env task_id) (\<lambda>task.
       if task = PNone then
         client_request env client
           (PostTask (PDict
              [(''id'', PStr task_id),
               (''title'', PStr title),
               (''type'', PStr ''workshop''),
               (''description'', PStr description),
               (''policy'', PDict [(''preset'', PStr preset)])]))
       else ret task)"

text \<open>\<open>set_current_workshop\<close> (lines 285 to 287).\<close>

definition set_current_workshop :: "string option \<Rightarrow> (unit, 'w) prog" where
  "set_current_workshop task_id = (\<lambda>st. (Inr (), st\<lparr>CURRENT_WORKSHOP_ID := task_id\<rparr>))"

text \<open>\<open>append_workshop_conversation\<close> (lines 290 to 296); the timestamp is the clock's.\<close>

definition append_workshop_conversation ::
  "'w env \<Rightarrow> string \<Rightarrow> string \<Rightarrow> string \<Rightarrow> (unit, 'w) prog" where
  "append_workshop_conversation env task_id question answer =
     (\<lambda>st. append_work_outcomes env client task_id ''conversation''
             (PDict [(''ts'', PStr (utcnow_isoformat env (clock st))),
                     (''question'', PStr question),
                     (''answer'', PStr answer)])
             (st\<lparr>clock := Suc (clock st)\<rparr>))"

text \<open>\<open>get_workshop_output\<close> (lines 299 to 307).\<close>

definition get_workshop_output :: "'w env \<Rightarrow> string \<Rightarrow> (string option, 'w) prog" where
  "get_workshop_output env task_id =
     bind (get_task env task_id) (\<lambda>task.
       if \<not> truthy task then ret None
       else
         bind (lift (py_get task ''work_outcomes'')) (\<lambda>wo.
         bind (lift (py_get (if truthy wo then wo else PDict []) ''output'')) (\<lambda>output.
           case output of
             PStr s \<Rightarrow> if strip s \<noteq> [] then ret (Some s) else ret None
           | _ \<Rightarrow> ret None)))"

text \<open>\<open>set_workshop_output\<close> (lines 310 to 313).\<close>

definition set_workshop_output :: "'w env \<Rightarrow> string \<Rightarrow> string \<Rightarrow> (unit, 'w) prog" where
  "set_workshop_output env task_id output =
     bind (put_work_outcomes env client task_id ''output'' (PStr output)) (\<lambda>_.
     bind (put_work_outcomes env client task_id ''summary'' (PStr output)) (\<lambda>_.
       append_workshop_conversation env task_id ''Workshop summary'' output))"

text \<open>\<open>log_conversation\<close> (lines 332 to 336).\<close>

definition log_conversation :: "'w env \<Rightarrow> string \<Rightarrow> string \<Rightarrow> (unit, 'w) prog" where
  "log_conversation env question answer =
     (\<lambda>st. bind (if CURRENT_WORKSHOP_ID st = None
                 then bind (ensure_problem_refinement_task env) (\<lambda>_. ret ())
                 else ret ())
             (\<lambda>_. append_workshop_conversation env
                     (case CURRENT_WORKSHOP_ID st of
                        None \<Rightarrow> ''problem-refinement''
                      | Some t \<Rightarrow> if t \<noteq> [] then t else ''problem-refinement'')
                     question answer) st)"

text \<open>\<open>get_problem_refinement_discovery\<close> (lines 339 to 348).\<close>

definition get_problem_refinement_discovery ::
  "'w env \<Rightarrow> ((string \<times> string) list option, 'w) prog" where
  "get_problem_refinement_discovery env =
     bind (get_workshop_output env ''problem-refinement'') (\<lambda>o1.
     bind (get_workshop_output env ''workshop-eventstorming'') (\<lambda>o2.
     bind (get_workshop_output env ''workshop-decision'') (\<lambda>o3.
     bind (get_workshop_output env ''workshop-clarify'') (\<lambda>o4.
       let outputs = [(''initial'', o1), (''event_storming'', o2),
                      (''decision_workshop'', o3), (''clarify'', o4)]
       in if \<not> list_ex (\<lambda>(k, v). v \<noteq> None \<and> v \<noteq> Some []) outputs then ret None
          else ret (Some (concat (map (\<lambda>(k, v). case v of None \<Rightarrow> []
                                   | Some s \<Rightarrow> if s \<noteq> [] then [(k, s)] else []) outputs)))))))"

section \<open>The human interaction gate\<close>

text \<open>
  \<open>str.isdigit\<close>, and \<open>int\<close> on a string of such characters: the superscript digits
  count as digits but are no decimal digits, and \<open>int\<close> raises \<open>ValueError\<close> on them
  (\<open>None\<close> here), as it does on more than 4300 digits (the default limit of CPython 3.11
  and later).
\<close>

definition py_isdigit :: "string \<Rightarrow> bool" where
  "py_isdigit s = (s \<noteq> [] \<and> list_all py_isdigit_char s)"

definition py_int :: "string \<Rightarrow> int option" where
  "py_int s =
     (if s \<noteq> [] \<and> list_all py_isdecimal s \<and> length s \<le> 4300 then Some (digits_value s)
      else None)"

text \<open>
  \<open>input(prompt)\<close>: the next line without its newline, \<open>EOFError\<close> at the end of the
  input. A line is what \<open>readline\<close> returns: the empty string means the end of the input.
\<close>

definition py_input :: "(string, 'w) prog" where
  "py_input =
     (\<lambda>st. case stdin st of
             [] \<Rightarrow> (Inl EOFError, st)
           | l # ls \<Rightarrow>
               if l = [] then (Inl EOFError, st\<lparr>stdin := ls\<rparr>)
               else (Inr (if last l = newline then butlast l else l), st\<lparr>stdin := ls\<rparr>))"

text \<open>
  The \<open>while True\<close> loop of \<open>ask_human_question_local\<close> (lines 360 to 380), by recursion
  on the lines still to be read: each turn reads one. \<open>opts_of\<close> reads the optional
  list of options (\<open>None\<close> and the empty list both count as no options).
\<close>

definition opts_of :: "string list option \<Rightarrow> string list" where
  "opts_of options = (case options of None \<Rightarrow> [] | Some l \<Rightarrow> l)"

fun ask_loop ::
  "'w env \<Rightarrow> string \<Rightarrow> string list option \<Rightarrow> string list \<Rightarrow> (string, 'w) prog" where
  "ask_loop env question options [] =
     (\<lambda>st. (Inl (RuntimeError ''stdin closed while waiting for input''), st\<lparr>stdin := []\<rparr>))"
| "ask_loop env question options (line # rest) =
     (\<lambda>st.
        if line = [] then
          (Inl (RuntimeError ''stdin closed while waiting for input''), st\<lparr>stdin := rest\<rparr>)
        else if strip line \<noteq> [] then
          (if opts_of options \<noteq> [] \<and> py_isdigit (strip line) then
             (case py_int (strip line) of
                None \<Rightarrow> (Inl ValueError, st\<lparr>stdin := rest\<rparr>)
              | Some choice \<Rightarrow>
                  if 1 \<le> choice \<and> choice \<le> int (length (opts_of options)) then
                    (if startswith (lower (opts_of options ! nat (choice - 1))) ''other'' then
                       bind py_input (\<lambda>l.
                         if strip l \<noteq> [] then
                           bind (log_conversation env question (strip l)) (\<lambda>_. ret (strip l))
                         else
                           bind (log_conversation env question (opts_of options ! nat (choice - 1)))
                             (\<lambda>_. ret (opts_of options ! nat (choice - 1))))
                         (st\<lparr>stdin := rest\<rparr>)
                     else
                       bind (log_conversation env question (opts_of options ! nat (choice - 1)))
                         (\<lambda>_. ret (opts_of options ! nat (choice - 1))) (st\<lparr>stdin := rest\<rparr>))
                  else
                    bind (log_conversation env question (strip line)) (\<lambda>_. ret (strip line))
                      (st\<lparr>stdin := rest\<rparr>))
           else
             bind (log_conversation env question (strip line)) (\<lambda>_. ret (strip line))
               (st\<lparr>stdin := rest\<rparr>))
        else ask_loop env question options rest (st\<lparr>stdin := rest\<rparr>))"

text \<open>\<open>ask_human_question_local\<close> (lines 351 to 381).\<close>

definition ask_human_question_local ::
  "'w env \<Rightarrow> string \<Rightarrow> string list option \<Rightarrow> (string, 'w) prog" where
  "ask_human_question_local env question options =
     (\<lambda>st. if HUMAN_REVIEW_MODE env = ''interactive'' then
             (if \<not> stdin_isatty env then
                (Inl (RuntimeError
                   ''stdin is not interactive; run without make or attach a TTY.''), st)
              else ask_loop env question options (stdin st) st)
           else
             (Inl (RuntimeError
                ''HUMAN_REVIEW_MODE must be interactive; simulation is disabled.''), st))"

section \<open>Running the agent\<close>

primrec run_tree :: "'w env \<Rightarrow> agent_run \<Rightarrow> (string, 'w) prog" where
  "run_tree env (Final s) = ret s"
| "run_tree env (Raise e) = throw e"
| "run_tree env (Ask question options k) =
     (\<lambda>st. case ask_human_question_local env question options st of
             (r, st') \<Rightarrow> run_tree env (k r) st')"

text \<open>
  \<open>_run_agent model system_prompt user_input tools\<close>: \<open>tools\<close> tells whether the tool
  list is non-empty. Without tools the model is invoked once, without any tool call.
\<close>

definition run_agent :: "'w env \<Rightarrow> string \<Rightarrow> string \<Rightarrow> bool \<Rightarrow> (string, 'w) prog" where
  "run_agent env system_prompt user_input tools =
     (\<lambda>st. let n = length (agent_calls st);
               st' = st\<lparr>agent_calls := agent_calls st @ [(system_prompt, user_input)]\<rparr>
           in if \<not> tools then (model_invoke env n system_prompt user_input, st')
              else run_tree env (model_agent env n system_prompt user_input) st')"

section \<open>Discovery phases\<close>

text \<open>The system prompts of \<open>run_discovery\<close>, \<open>run_discovery_phase\<close> and
  \<open>run_workshop_next_steps\<close> (lines 482 to 514).\<close>

definition discovery_prompt :: string where
  "discovery_prompt =
     ''You are a product planner starting a discovery phase. First, refine ''
     @ ''the provided problem statement into clear goals and scope. Only ask ''
     @ ''clarifying questions if critical details are missing. Use ''
     @ ''ask_human_question when needed, and always include 3-5 options plus ''
     @ [CHR 0x27] @ ''Other'' @ [CHR 0x27] @ ''. Ask at most one question at a time. ''
     @ [CHR 0x27] @ ''Other'' @ [CHR 0x27]
     @ '' in each question. Then provide assumptions and success metrics. ''
     @ ''Output sections: Refined Problem, Assumptions, Success Metrics, Actors.''"

definition phase_prompt :: "string \<Rightarrow> string" where
  "phase_prompt phase_name =
     ''You are facilitating a discovery workshop phase: '' @ phase_name @ ''. ''
     @ ''Ask clarifying questions when needed using ask_human_question, and ''
     @ ''include 3-5 options plus '' @ [CHR 0x27] @ ''Other'' @ [CHR 0x27]
     @ '' in each question. ''
     @ ''Ask at most one question at a time. ''
     @ ''Return a concise summary with decisions, risks, and open questions.''"

definition next_steps_prompt :: "string \<Rightarrow> string" where
  "next_steps_prompt phase_name =
     ''You just completed the '' @ phase_name @ '' workshop. ''
     @ ''Plan the next steps needed to reach the iteration goal. ''
     @ ''Return a concise, ordered list with owners if possible.''"

definition run_discovery :: "'w env \<Rightarrow> string \<Rightarrow> (string, 'w) prog" where
  "run_discovery env problem_statement =
     run_agent env discovery_prompt problem_statement True"

definition run_discovery_phase :: "'w env \<Rightarrow> string \<Rightarrow> string \<Rightarrow> (string, 'w) prog" where
  "run_discovery_phase env phase_name context =
     run_agent env (phase_prompt phase_name) context True"

definition run_workshop_next_steps :: "'w env \<Rightarrow> string \<Rightarrow> string \<Rightarrow> (string, 'w) prog" where
  "run_workshop_next_steps env phase_name context =
     run_agent env (next_steps_prompt phase_name) context False"

text \<open>
  The discovery map is a dict from phase names to texts, kept in insertion order;
  \<open>discovery[k] = v\<close> is \<open>AList.update k v\<close>. The context built at lines 555 to 560.
\<close>

definition discovery_context :: "string \<Rightarrow> (string \<times> string) list \<Rightarrow> string" where
  "discovery_context problem_statement discovery =
     (''Problem Statement:'' @ [newline] @ problem_statement)
     @ [newline, newline]
     @ (''Initial Refinement:'' @ [newline]
        @ (case map_of discovery ''initial'' of None \<Rightarrow> [] | Some v \<Rightarrow> v))"

text \<open>\<open>not x\<close> for an optional string.\<close>

definition falsy :: "string option \<Rightarrow> bool" where
  "falsy x = (x = None \<or> x = Some [])"

definition str_of :: "string option \<Rightarrow> string" where
  "str_of x = (case x of None \<Rightarrow> [] | Some s \<Rightarrow> s)"

text \<open>
  \<open>continue_discovery\<close> (lines 517 to 591). Where \<open>initial_output\<close>, \<open>event_out\<close>,
  \<open>decision_out\<close> or \<open>clarify_out\<close> is stored in the map it is a string: the branch that
  keeps the value read from the backend is taken only when that value is not falsy.
\<close>

definition continue_discovery ::
  "'w env \<Rightarrow> string \<Rightarrow> (string \<times> string) list option
   \<Rightarrow> ((string \<times> string) list, 'w) prog" where
  "continue_discovery env problem_statement existing =
     bind (ensure_workshop_task env ''problem-refinement'' ''Problem refinement''
             ''workshop.problem_refinement''
             ''Refine the problem statement and clarify scope.'') (\<lambda>_.
     bind (ensure_workshop_task env ''workshop-eventstorming'' ''Event storming''
             ''workshop.eventstorming'' ''Map domain events and flows.'') (\<lambda>_.
     bind (ensure_workshop_task env ''workshop-decision'' ''Decision workshop''
             ''workshop.decision'' ''Capture key trade-offs and decisions.'') (\<lambda>_.
     bind (ensure_workshop_task env ''workshop-clarify'' ''Clarification workshop''
             ''workshop.clarify'' ''Resolve open questions and assumptions.'') (\<lambda>_.
     bind (if map_of (case existing of None \<Rightarrow> [] | Some d \<Rightarrow> d) ''initial'' = None
              \<or> strip (str_of (map_of (case existing of None \<Rightarrow> [] | Some d \<Rightarrow> d) ''initial'')) = []
           then
             bind (get_workshop_output env ''problem-refinement'') (\<lambda>initial_output.
             bind (if falsy initial_output then
                     bind (set_current_workshop (Some ''problem-refinement'')) (\<lambda>_.
                     bind (run_discovery env problem_statement) (\<lambda>out.
                     bind (set_current_workshop None) (\<lambda>_.
                     bind (set_workshop_output env ''problem-refinement'' out) (\<lambda>_.
                       ret out))))
                   else ret (str_of initial_output)) (\<lambda>initial_output.
               ret (AList.update ''initial'' initial_output
                      (case existing of None \<Rightarrow> [] | Some d \<Rightarrow> d))))
           else ret (case existing of None \<Rightarrow> [] | Some d \<Rightarrow> d)) (\<lambda>discovery.
     bind (if map_of discovery ''event_storming'' = None then
             bind (get_workshop_output env ''workshop-eventstorming'') (\<lambda>event_out.
             bind (if falsy event_out then
                     bind (set_current_workshop (Some ''workshop-eventstorming'')) (\<lambda>_.
                     bind (run_discovery_phase env ''Event Storming''
                             (discovery_context problem_statement discovery)) (\<lambda>out.
                     bind (set_current_workshop None) (\<lambda>_.
                     bind (set_workshop_output env ''workshop-eventstorming'' out) (\<lambda>_.
                     bind (run_workshop_next_steps env ''Event Storming''
                             (discovery_context problem_statement discovery)) (\<lambda>next_steps.
                     bind (put_work_outcomes env client ''workshop-eventstorming''
                             ''next_steps'' (PStr next_steps)) (\<lambda>_.
                       ret out))))))
                   else ret (str_of event_out)) (\<lambda>event_out.
               ret (AList.update ''event_storming'' event_out discovery)))
           else ret discovery) (\<lambda>discovery1.
     bind (if map_of discovery1 ''decision_workshop'' = None then
             bind (get_workshop_output env ''workshop-decision'') (\<lambda>decision_out.
             bind (if falsy decision_out then
                     bind (set_current_workshop (Some ''workshop-decision'')) (\<lambda>_.
                     bind (run_discovery_phase env ''Decision Workshop''
                             (discovery_context problem_statement discovery)) (\<lambda>out.
                     bind (set_current_workshop None) (\<lambda>_.
                     bind (set_workshop_output env ''workshop-decision'' out) (\<lambda>_.
                     bind (run_workshop_next_steps env ''Decision Workshop''
                             (discovery_context problem_statement discovery)) (\<lambda>next_steps.
                     bind (put_work_outcomes env client ''workshop-decision''
                             ''next_steps'' (PStr next_steps)) (\<lambda>_.
                       ret out))))))
                   else ret (str_of decision_out)) (\<lambda>decision_out.
               ret (AList.update ''decision_workshop'' decision_out discovery1)))
           else ret discovery1) (\<lambda>discovery2.
     bind (if map_of discovery2 ''clarify'' = None then
             bind (get_workshop_output env ''workshop-clarify'') (\<lambda>clarify_out.
             bind (if falsy clarify_out then
                     bind (set_current_workshop (Some ''workshop-clarify'')) (\<lambda>_.
                     bind (run_discovery_phase env ''Clarification''
                             (discovery_context problem_statement discovery)) (\<lambda>out.
                     bind (set_current_workshop None) (\<lambda>_.
                     bind (set_workshop_output env ''workshop-clarify'' out) (\<lambda>_.
                     bind (run_workshop_next_steps env ''Clarification''
                             (discovery_context problem_statement discovery)) (\<lambda>next_steps.
                     bind (put_work_outcomes env client ''workshop-clarify''
                             ''next_steps'' (PStr next_steps)) (\<lambda>_.
                       ret out))))))
                   else ret (str_of clarify_out)) (\<lambda>clarify_out.
               ret (AList.update ''clarify'' clarify_out discovery2)))
           else ret discovery2) (\<lambda>discovery3.
       ret discovery3))))))))"

section \<open>Specifications\<close>

definition specifications_prompt :: string where
  "specifications_prompt =
     ''You are a product analyst. Produce a PRD and functional specifications ''
     @ ''for ALL features in the plan. Use the discovery context. ''
     @ ''Return JSON with keys: prd, gherkin. ''
     @ ''PRD should include: overview, goals, non-goals, personas, ''
     @ ''user journeys, functional requirements, non-functional requirements, ''
     @ ''dependencies, risks, open questions. ''
     @ ''Gherkin must include Feature and Scenario blocks for each feature.''"

record specs =
  prd :: pyval
  gherkin :: pyval

text \<open>
  \<open>run_specifications\<close> (lines 663 to 685); first its \<open>user_input\<close>. \<open>loads\<close> is
  \<open>json.loads\<close> and \<open>dumps\<close> is \<open>json.dumps\<close> with \<open>indent=2\<close> on the discovery map. An
  exception that leaves \<open>_extract_json_payload\<close> leaves \<open>run_specifications\<close> too: there is
  no \<open>try\<close> around the call.
\<close>

definition specifications_input ::
  "((string \<times> string) list \<Rightarrow> string) \<Rightarrow> (string \<times> string) list \<Rightarrow> string \<Rightarrow> string" where
  "specifications_input dumps discovery plan =
     ''Discovery:'' @ [newline] @ dumps discovery
     @ [newline, newline] @ ''Plan:'' @ [newline] @ plan"

definition run_specifications ::
  "'w env \<Rightarrow> (string \<Rightarrow> error + pyval) \<Rightarrow> ((string \<times> string) list \<Rightarrow> string)
   \<Rightarrow> (string \<times> string) list \<Rightarrow> string \<Rightarrow> (specs, 'w) prog" where
  "run_specifications env loads dumps discovery plan =
     bind (run_agent env specifications_prompt
             (specifications_input dumps discovery plan) False) (\<lambda>output.
       case extract_json_payload loads output of
         Inl e \<Rightarrow> throw e
       | Inr (PDict parsed) \<Rightarrow>
           ret \<lparr>prd = dict_get parsed ''prd'' (PStr []),
                gherkin = dict_get parsed ''gherkin'' (PStr [])\<rparr>
       | Inr _ \<Rightarrow> ret \<lparr>prd = PStr output, gherkin = PStr []\<rparr>)"

section \<open>A backend and an environment to run the model\<close>

text \<open>
  Modelled from the spec: the project-management backend is not in src/. Following 3,
  4.2 and 6 of the specification it keeps work-items by id; each carries a title, a type,
  a description, a policy and a map of named outcome fields, the conversation log being
  the list-valued field \<open>conversation\<close>. A lookup of a missing item answers 404; a
  creation stores the fields of the body with no outcomes yet; a write of an outcome field
  replaces it, an append extends the list held by the field. A creation without an id or
  with an id in use is refused.
\<close>

record work_item =
  item_id :: string
  item_title :: pyval
  item_type :: pyval
  item_description :: pyval
  item_policy :: pyval
  work_outcomes :: "(string \<times> pyval) list"

type_synonym store = "string \<rightharpoonup> work_item"

definition item_json :: "work_item \<Rightarrow> pyval" where
  "item_json t =
     PDict [(''id'', PStr (item_id t)), (''title'', item_title t), (''type'', item_type t),
            (''description'', item_description t), (''policy'', item_policy t),
            (''work_outcomes'', PDict (work_outcomes t))]"

definition new_item :: "pyval \<Rightarrow> work_item option" where
  "new_item b =
     (case b of
        PDict d \<Rightarrow>
          (case map_of d ''id'' of
             Some (PStr i) \<Rightarrow>
               Some \<lparr>item_id = i, item_title = dict_get d ''title'' PNone,
                     item_type = dict_get d ''type'' PNone,
                     item_description = dict_get d ''description'' PNone,
                     item_policy = dict_get d ''policy'' PNone, work_outcomes = []\<rparr>
           | _ \<Rightarrow> None)
      | _ \<Rightarrow> None)"

definition not_found :: http_response where
  "not_found = \<lparr>status_code = 404, body = PDict [(''error'', PStr ''not found'')]\<rparr>"

text \<open>
  Modelled from the spec: the backend's answer to each request and the store after it (the
  service is not in src/), as described above.
\<close>

fun store_backend :: "store \<Rightarrow> request \<Rightarrow> http_response \<times> store" where
  "store_backend s (GetTask i) =
     (case s i of
        None \<Rightarrow> (not_found, s)
      | Some t \<Rightarrow> (\<lparr>status_code = 200, body = item_json t\<rparr>, s))"
| "store_backend s (PostTask b) =
     (case new_item b of
        None \<Rightarrow> (\<lparr>status_code = 400, body = PDict [(''error'', PStr ''bad request'')]\<rparr>, s)
      | Some t \<Rightarrow>
          (case s (item_id t) of
             Some _ \<Rightarrow> (\<lparr>status_code = 409, body = PDict [(''error'', PStr ''conflict'')]\<rparr>, s)
           | None \<Rightarrow> (\<lparr>status_code = 201, body = item_json t\<rparr>, s(item_id t \<mapsto> t))))"
| "store_backend s (PutWorkOutcomes i f v) =
     (case s i of
        None \<Rightarrow> (not_found, s)
      | Some t \<Rightarrow>
          (\<lparr>status_code = 200,
            body = item_json (t\<lparr>work_outcomes := AList.update f v (work_outcomes t)\<rparr>)\<rparr>,
           s(i \<mapsto> t\<lparr>work_outcomes := AList.update f v (work_outcomes t)\<rparr>)))"
| "store_backend s (AppendWorkOutcomes i f e) =
     (case s i of
        None \<Rightarrow> (not_found, s)
      | Some t \<Rightarrow>
          (\<lparr>status_code = 200,
            body = item_json (t\<lparr>work_outcomes :=
              AList.update f
                (PList ((case map_of (work_outcomes t) f of Some (PList xs) \<Rightarrow> xs | _ \<Rightarrow> []) @ [e]))
                (work_outcomes t)\<rparr>)\<rparr>,
           s(i \<mapsto> t\<lparr>work_outcomes :=
              AList.update f
                (PList ((case map_of (work_outcomes t) f of Some (PList xs) \<Rightarrow> xs | _ \<Rightarrow> []) @ [e]))
                (work_outcomes t)\<rparr>)))"

text \<open>The \<open>output\<close> field of an item of the store, when it is a non-blank string.\<close>

definition stored_output :: "store \<Rightarrow> string \<Rightarrow> string option" where
  "stored_output s i =
     (case s i of
        None \<Rightarrow> None
      | Some t \<Rightarrow>
          (case map_of (work_outcomes t) ''output'' of
             Some (PStr x) \<Rightarrow> if strip x \<noteq> [] then Some x else None
           | _ \<Rightarrow> None))"

text \<open>
  \<open>json.dumps(d, indent=2)\<close> on a dict of strings whose characters are printable ASCII
  other than the quote and the backslash (no escapes are produced).
\<close>

definition dumps_item :: "string \<times> string \<Rightarrow> string" where
  "dumps_item kv = ''  '' @ [dquote] @ fst kv @ [dquote] @ '': '' @ [dquote] @ snd kv @ [dquote]"

fun join_lines :: "string list \<Rightarrow> string" where
  "join_lines [] = []"
| "join_lines [x] = x"
| "join_lines (x # y # ys) = x @ '','' @ [newline] @ join_lines (y # ys)"

definition dumps_indent2 :: "(string \<times> string) list \<Rightarrow> string" where
  "dumps_indent2 d =
     (if d = [] then ''{}''
      else ''{'' @ [newline] @ join_lines (map dumps_item d) @ [newline] @ ''}'')"

text \<open>
  An interactive console on the store, with a model that answers every prompt without
  tools by \<open>reply\<close> and runs every agent as \<open>agent\<close> says.
\<close>

definition console_env ::
  "(nat \<Rightarrow> string \<Rightarrow> string \<Rightarrow> error + string) \<Rightarrow> (nat \<Rightarrow> string \<Rightarrow> string \<Rightarrow> agent_run)
   \<Rightarrow> store env" where
  "console_env reply agent =
     \<lparr>HUMAN_REVIEW_MODE = ''interactive'', stdin_isatty = True, backend = store_backend,
      model_invoke = reply, model_agent = agent,
      utcnow_isoformat = (\<lambda>n. ''2024-01-01T00:00:00+00:00'')\<rparr>"

definition start :: "store \<Rightarrow> string list \<Rightarrow> store state" where
  "start s lines =
     \<lparr>world = s, CURRENT_WORKSHOP_ID = None, stdin = lines, requests = [],
      agent_calls = [], clock = 0\<rparr>"

section \<open>Phases and invariants of a run\<close>

text \<open>
  The four discovery phases with the key of the discovery map, the work-item and the
  system prompts of the agent runs that \<open>continue_discovery\<close> makes for each.
\<close>

datatype phase = Initial | Event_storming | Decision_workshop | Clarify

fun phase_key :: "phase \<Rightarrow> string" where
  "phase_key Initial = ''initial''"
| "phase_key Event_storming = ''event_storming''"
| "phase_key Decision_workshop = ''decision_workshop''"
| "phase_key Clarify = ''clarify''"

fun phase_task :: "phase \<Rightarrow> string" where
  "phase_task Initial = ''problem-refinement''"
| "phase_task Event_storming = ''workshop-eventstorming''"
| "phase_task Decision_workshop = ''workshop-decision''"
| "phase_task Clarify = ''workshop-clarify''"

fun phase_name :: "phase \<Rightarrow> string" where
  "phase_name Initial = ''Initial''"
| "phase_name Event_storming = ''Event Storming''"
| "phase_name Decision_workshop = ''Decision Workshop''"
| "phase_name Clarify = ''Clarification''"

fun runner_prompts :: "phase \<Rightarrow> string list" where
  "runner_prompts Initial = [discovery_prompt]"
| "runner_prompts p = [phase_prompt (phase_name p), next_steps_prompt (phase_name p)]"

text \<open>The agent runs started between two states of one run of the program.\<close>

definition new_calls :: "'w state \<Rightarrow> 'w state \<Rightarrow> (string \<times> string) list" where
  "new_calls st st' = drop (length (agent_calls st)) (agent_calls st')"

text \<open>
  One guarded block of \<open>continue_discovery\<close> for a phase after the first (lines 561 to
  570, 571 to 580 and 581 to 590), and the block of the first phase (lines 547 to 554).
\<close>

definition phase_block ::
  "'w env \<Rightarrow> string \<Rightarrow> string \<Rightarrow> string \<Rightarrow> string \<Rightarrow> (string \<times> string) list
   \<Rightarrow> ((string \<times> string) list, 'w) prog" where
  "phase_block env context key task name discovery =
     (if map_of discovery key = None then
        bind (get_workshop_output env task) (\<lambda>phase_out.
        bind (if falsy phase_out then
                bind (set_current_workshop (Some task)) (\<lambda>_.
                bind (run_discovery_phase env name context) (\<lambda>out.
                bind (set_current_workshop None) (\<lambda>_.
                bind (set_workshop_output env task out) (\<lambda>_.
                bind (run_workshop_next_steps env name context) (\<lambda>next_steps.
                bind (put_work_outcomes env client task ''next_steps'' (PStr next_steps)) (\<lambda>_.
                  ret out))))))
              else ret (str_of phase_out)) (\<lambda>phase_out.
          ret (AList.update key phase_out discovery)))
      else ret discovery)"

definition initial_block ::
  "'w env \<Rightarrow> string \<Rightarrow> (string \<times> string) list \<Rightarrow> ((string \<times> string) list, 'w) prog" where
  "initial_block env problem_statement discovery =
     (if map_of discovery ''initial'' = None
         \<or> strip (str_of (map_of discovery ''initial'')) = []
      then
        bind (get_workshop_output env ''problem-refinement'') (\<lambda>initial_output.
        bind (if falsy initial_output then
                bind (set_current_workshop (Some ''problem-refinement'')) (\<lambda>_.
                bind (run_discovery env problem_statement) (\<lambda>out.
                bind (set_current_workshop None) (\<lambda>_.
                bind (set_workshop_output env ''problem-refinement'' out) (\<lambda>_.
                  ret out))))
              else ret (str_of initial_output)) (\<lambda>initial_output.
          ret (AList.update ''initial'' initial_output discovery)))
      else ret discovery)"

definition ensure_workshop_tasks :: "'w env \<Rightarrow> (pyval, 'w) prog" where
  "ensure_workshop_tasks env =
     bind (ensure_workshop_task env ''problem-refinement'' ''Problem refinement''
             ''workshop.problem_refinement''
             ''Refine the problem statement and clarify scope.'') (\<lambda>_.
     bind (ensure_workshop_task env ''workshop-eventstorming'' ''Event storming''
             ''workshop.eventstorming'' ''Map domain events and flows.'') (\<lambda>_.
     bind (ensure_workshop_task env ''workshop-decision'' ''Decision workshop''
             ''workshop.decision'' ''Capture key trade-offs and decisions.'') (\<lambda>_.
       ensure_workshop_task env ''workshop-clarify'' ''Clarification workshop''
             ''workshop.clarify'' ''Resolve open questions and assumptions.'')))"

text \<open>
  Invariants for reasoning about a run: \<open>W\<close> constrains the backend's world, \<open>G\<close> the
  agent runs started since the calls \<open>cs0\<close>. A request \<open>writes_output\<close> of an item when
  it writes the field \<open>output\<close> of that item; \<open>frame\<close> says that \<open>W\<close> survives the other
  requests. \<open>hoare I m R\<close>: from a state in \<open>I\<close> the program \<open>m\<close> ends in \<open>I\<close>, and with
  a result in \<open>R\<close> when it returns.
\<close>

definition Inv ::
  "('w \<Rightarrow> bool) \<Rightarrow> (string \<times> string \<Rightarrow> bool) \<Rightarrow> (string \<times> string) list \<Rightarrow> 'w state \<Rightarrow> bool" where
  "Inv W G cs0 st = (W (world st) \<and> (\<exists>new. agent_calls st = cs0 @ new \<and> list_all G new))"

fun writes_output :: "string \<Rightarrow> request \<Rightarrow> bool" where
  "writes_output task (PutWorkOutcomes i f v) = (i = task \<and> f = ''output'')"
| "writes_output task (AppendWorkOutcomes i f e) = (i = task \<and> f = ''output'')"
| "writes_output task _ = False"

definition frame :: "'w env \<Rightarrow> ('w \<Rightarrow> bool) \<Rightarrow> string \<Rightarrow> bool" where
  "frame env W task =
     (\<forall>w rq. W w \<longrightarrow> \<not> writes_output task rq \<longrightarrow> W (snd (backend env w rq)))"

definition hoare :: "('w state \<Rightarrow> bool) \<Rightarrow> ('a, 'w) prog \<Rightarrow> ('a \<Rightarrow> bool) \<Rightarrow> bool" where
  "hoare I m R = (\<forall>st. I st \<longrightarrow> I (snd (m st)) \<and> (\<forall>x. fst (m st) = Inr x \<longrightarrow> R x))"

text \<open>An item that already carries an \<open>output\<close>, and a model that asks nothing.\<close>

definition done_item :: "string \<Rightarrow> string \<Rightarrow> work_item" where
  "done_item i out =
     \<lparr>item_id = i, item_title = PStr ''Workshop'', item_type = PStr ''workshop'',
      item_description = PNone, item_policy = PNone, work_outcomes = [(''output'', PStr out)]\<rparr>"

definition quiet_env :: "store env" where
  "quiet_env = console_env (\<lambda>n s u. Inr ''NEXT'')
     (\<lambda>n s u. if s = discovery_prompt then Final ''INIT''
               else if s = phase_prompt ''Event Storming'' then Final ''EVENTS''
               else if s = phase_prompt ''Decision Workshop'' then Final ''DECISIONS''
               else Final ''CLARIFIED'')"

section \<open>Facts about strings\<close>

lemma py_isspace_lower_char: "py_isspace (py_lower_char c) = py_isspace c"
  by (auto simp: py_isspace_def py_lower_char_def Let_def)

lemma py_lower_char_idem: "py_lower_char (py_lower_char c) = py_lower_char c"
  by (auto simp: py_lower_char_def Let_def)

lemma lower_idem: "lower (lower s) = lower s"
  by (simp add: lower_def py_lower_char_idem)

lemma lower_append: "lower (a @ b) = lower a @ lower b"
  by (simp add: lower_def)

lemma dropWhile_isspace_lower:
  "dropWhile py_isspace (lower s) = lower (dropWhile py_isspace s)"
  by (induction s) (simp_all add: lower_def py_isspace_lower_char)

lemma lstrip_lower: "lstrip (lower s) = lower (lstrip s)"
  by (simp add: lstrip_def dropWhile_isspace_lower)

lemma rstrip_lower: "rstrip (lower s) = lower (rstrip s)"
proof -
  have r: "rev (lower t) = lower (rev t)" for t
    by (simp add: lower_def rev_map)
  have "rstrip (lower s) = rev (dropWhile py_isspace (lower (rev s)))"
    by (simp add: rstrip_def r)
  also have "\<dots> = rev (lower (dropWhile py_isspace (rev s)))"
    by (simp only: dropWhile_isspace_lower)
  also have "\<dots> = lower (rstrip s)"
    by (simp add: rstrip_def r)
  finally show ?thesis .
qed

lemma strip_lower: "strip (lower s) = lower (strip s)"
  by (simp add: strip_def lstrip_lower rstrip_lower)

lemma lstrip_idem: "lstrip (lstrip s) = lstrip s"
  by (simp add: lstrip_def dropWhile_idem)

lemma rstrip_idem: "rstrip (rstrip s) = rstrip s"
  by (simp add: rstrip_def dropWhile_idem)

lemma lstrip_fixed: "s = [] \<or> \<not> py_isspace (hd s) \<Longrightarrow> lstrip s = s"
  by (cases s) (auto simp: lstrip_def)

lemma rstrip_head: "rstrip s \<noteq> [] \<Longrightarrow> hd (rstrip s) = hd s"
proof (induction s)
  case Nil
  then show ?case by (simp add: rstrip_def)
next
  case (Cons a s)
  show ?case
  proof (cases "dropWhile py_isspace (rev s) = []")
    case True
    with Cons.prems show ?thesis
      by (auto simp: rstrip_def dropWhile_append split: if_splits)
  next
    case False
    then show ?thesis
      by (auto simp: rstrip_def dropWhile_append dest: set_dropWhileD)
  qed
qed

lemma lstrip_rstrip: "lstrip (rstrip (lstrip s)) = rstrip (lstrip s)"
proof (cases "rstrip (lstrip s) = []")
  case True
  then show ?thesis by (simp add: lstrip_def)
next
  case False
  then have ne: "lstrip s \<noteq> []"
    by (auto simp: rstrip_def)
  have "hd (rstrip (lstrip s)) = hd (lstrip s)"
    using False by (rule rstrip_head)
  moreover have "\<not> py_isspace (hd (lstrip s))"
    using ne unfolding lstrip_def by (rule hd_dropWhile)
  ultimately show ?thesis
    by (simp add: lstrip_fixed)
qed

lemma strip_idem: "strip (strip s) = strip s"
  by (simp add: strip_def lstrip_rstrip rstrip_idem)

lemma normalize_idem: "lower (strip (lower (strip s))) = lower (strip s)"
  by (simp add: strip_lower strip_idem lower_idem)

lemma strip_prefix_kept:
  assumes "p \<noteq> []" "\<not> py_isspace (hd p)" "\<not> py_isspace (last p)"
  shows "strip (p @ r) = p @ rstrip r"
proof -
  have l: "lstrip (p @ r) = p @ r"
    using assms(1,2) by (intro lstrip_fixed) simp
  have "dropWhile py_isspace (rev r @ rev p) = dropWhile py_isspace (rev r) @ rev p"
    using assms(1,3) by (cases "rev p") (auto simp: dropWhile_append last_rev[symmetric] hd_rev)
  then show ?thesis
    by (simp add: strip_def l rstrip_def)
qed

lemma normalized_prefix_kept:
  assumes "prefix p k" "p \<noteq> []" "\<not> py_isspace (hd p)" "\<not> py_isspace (last p)" "lower p = p"
  shows "prefix p (lower (strip k))"
proof -
  from assms(1) obtain r where k: "k = p @ r"
    by (auto simp: prefix_def)
  show ?thesis
    by (simp add: k strip_prefix_kept[OF assms(2,3,4)] lower_append assms(5))
qed

section \<open>Credential routing: results\<close>

text \<open>
  C3, as stated, fails: the kind is stripped and lower-cased before it is matched, so a
  kind that starts with none of the listed prefixes can still select the reviewer.
\<close>

theorem client_for_attestation_other_kind_counterexample:
  "\<not> startswith '' REVIEW.Approved '' ''review.''
   \<and> \<not> startswith '' REVIEW.Approved '' ''acceptance.''
   \<and> \<not> startswith '' REVIEW.Approved '' ''security.''
   \<and> '' REVIEW.Approved '' \<noteq> ''iteration.approved''
   \<and> \<not> startswith '' REVIEW.Approved '' ''ci.''
   \<and> \<not> startswith '' REVIEW.Approved '' ''workshop.''
   \<and> client_for_attestation '' REVIEW.Approved '' = reviewer_client
   \<and> client_for_attestation '' REVIEW.Approved '' \<noteq> client"
  by code_simp

text \<open>
  C3, amended: the selection is a total function of the kind, and it is decided on the
  kind with its surrounding whitespace stripped and its letters lower-cased. When that
  form starts with \<open>review.\<close>, \<open>acceptance.\<close> or \<open>security.\<close>, or equals
  \<open>iteration.approved\<close>, the reviewer is selected; when it starts with \<open>ci.\<close>, the executor;
  when it starts with \<open>workshop.\<close>, the planner; and in every other case the default
  client. A kind that itself starts with one of these prefixes, or itself equals
  \<open>iteration.approved\<close>, is routed by the row of that prefix.
\<close>

theorem client_for_attestation_routing:
  "(startswith (lower (strip k)) ''review.'' \<or> startswith (lower (strip k)) ''acceptance.''
      \<or> startswith (lower (strip k)) ''security.'' \<or> lower (strip k) = ''iteration.approved''
      \<longrightarrow> client_for_attestation k = reviewer_client)
   \<and> (startswith (lower (strip k)) ''ci.'' \<longrightarrow> client_for_attestation k = executor_client)
   \<and> (startswith (lower (strip k)) ''workshop.'' \<longrightarrow> client_for_attestation k = planner_client)
   \<and> (\<not> startswith (lower (strip k)) ''review.''
        \<and> \<not> startswith (lower (strip k)) ''acceptance.''
        \<and> \<not> startswith (lower (strip k)) ''security.''
        \<and> lower (strip k) \<noteq> ''iteration.approved''
        \<and> \<not> startswith (lower (strip k)) ''ci.''
        \<and> \<not> startswith (lower (strip k)) ''workshop.''
      \<longrightarrow> client_for_attestation k = client)
   \<and> (startswith k ''review.'' \<or> startswith k ''acceptance.'' \<or> startswith k ''security.''
      \<or> k = ''iteration.approved'' \<longrightarrow> client_for_attestation k = reviewer_client)
   \<and> (startswith k ''ci.'' \<longrightarrow> client_for_attestation k = executor_client)
   \<and> (startswith k ''workshop.'' \<longrightarrow> client_for_attestation k = planner_client)"
proof -
  define n where "n = lower (strip k)"
  have cfa: "client_for_attestation k =
      (if startswith n ''review.'' \<or> startswith n ''acceptance.''
            \<or> startswith n ''security.'' \<or> n = ''iteration.approved''
       then reviewer_client
       else if startswith n ''ci.'' then executor_client
       else if startswith n ''workshop.'' then planner_client
       else client)"
    by (simp add: client_for_attestation_def n_def Let_def)
  have nrv: "client_for_attestation k = reviewer_client"
    if "startswith n ''review.'' \<or> startswith n ''acceptance.''
      \<or> startswith n ''security.'' \<or> n = ''iteration.approved''"
    using that by (simp add: cfa)
  have nci: "client_for_attestation k = executor_client" if "startswith n ''ci.''"
    using that by (auto simp: cfa startswith_def prefix_def)
  have nws: "client_for_attestation k = planner_client" if "startswith n ''workshop.''"
    using that by (auto simp: cfa startswith_def prefix_def)
  have other: "client_for_attestation k = client"
    if "\<not> startswith n ''review.'' \<and> \<not> startswith n ''acceptance.''
        \<and> \<not> startswith n ''security.'' \<and> n \<noteq> ''iteration.approved''
        \<and> \<not> startswith n ''ci.'' \<and> \<not> startswith n ''workshop.''"
    using that by (simp add: cfa)
  have kept: "startswith n p"
    if "startswith k p" "p \<in> {''review.'', ''acceptance.'', ''security.'', ''ci.'', ''workshop.''}"
    for p
    unfolding startswith_def n_def
  proof (rule normalized_prefix_kept)
    show "prefix p k" using that(1) by (simp add: startswith_def)
    show "p \<noteq> []" using that(2) by auto
    show "\<not> py_isspace (hd p)" using that(2) by (auto simp: py_isspace_def)
    show "\<not> py_isspace (last p)" using that(2) by (auto simp: py_isspace_def)
    have "lower ''review.'' = ''review.''" "lower ''acceptance.'' = ''acceptance.''"
      "lower ''security.'' = ''security.''" "lower ''ci.'' = ''ci.''"
      "lower ''workshop.'' = ''workshop.''"
      by code_simp+
    then show "lower p = p" using that(2) by auto
  qed
  have exact: "lower (strip ''iteration.approved'') = ''iteration.approved''"
    by code_simp
  have rv: "client_for_attestation k = reviewer_client"
    if "startswith k ''review.'' \<or> startswith k ''acceptance.''
      \<or> startswith k ''security.'' \<or> k = ''iteration.approved''"
  proof -
    from that have "startswith n ''review.'' \<or> startswith n ''acceptance.''
      \<or> startswith n ''security.'' \<or> n = ''iteration.approved''"
      using kept exact by (auto simp: n_def)
    then show ?thesis by (rule nrv)
  qed
  have ci: "client_for_attestation k = executor_client" if "startswith k ''ci.''"
    using that kept nci by simp
  have ws: "client_for_attestation k = planner_client" if "startswith k ''workshop.''"
    using that kept nws by simp
  from nrv nci nws other rv ci ws show ?thesis
    unfolding n_def by blast
qed

theorem client_for_attestation_routing_witness:
  "client_for_attestation '' REVIEW.Approved '' = reviewer_client
   \<and> client_for_attestation ''Acceptance.Passed'' = reviewer_client
   \<and> client_for_attestation ''  SECURITY.scan'' = reviewer_client
   \<and> client_for_attestation ''Iteration.Approved '' = reviewer_client
   \<and> client_for_attestation ''CI.passed'' = executor_client
   \<and> client_for_attestation ''  Workshop.Clarify'' = planner_client
   \<and> client_for_attestation ''Unknown.Kind '' = client
   \<and> client_for_attestation ''review.approved'' = reviewer_client
   \<and> client_for_attestation ''ci.passed'' = executor_client
   \<and> client_for_attestation ''workshop.clarify'' = planner_client"
proof -
  have h1: "startswith (lower (strip '' REVIEW.Approved '')) ''review.''"
    by code_simp
  have h2: "startswith (lower (strip ''Acceptance.Passed'')) ''acceptance.''"
    by code_simp
  have h3: "startswith (lower (strip ''  SECURITY.scan'')) ''security.''"
    by code_simp
  have h4: "lower (strip ''Iteration.Approved '') = ''iteration.approved''"
    by code_simp
  have h5: "startswith (lower (strip ''CI.passed'')) ''ci.''"
    by code_simp
  have h6: "startswith (lower (strip ''  Workshop.Clarify'')) ''workshop.''"
    by code_simp
  have h7: "\<not> startswith (lower (strip ''Unknown.Kind '')) ''review.''
        \<and> \<not> startswith (lower (strip ''Unknown.Kind '')) ''acceptance.''
        \<and> \<not> startswith (lower (strip ''Unknown.Kind '')) ''security.''
        \<and> lower (strip ''Unknown.Kind '') \<noteq> ''iteration.approved''
        \<and> \<not> startswith (lower (strip ''Unknown.Kind '')) ''ci.''
        \<and> \<not> startswith (lower (strip ''Unknown.Kind '')) ''workshop.''"
    by code_simp
  have h8: "startswith ''review.approved'' ''review.''"
    and h9: "startswith ''ci.passed'' ''ci.''"
    and h10: "startswith ''workshop.clarify'' ''workshop.''"
    by code_simp+
  have c1: "client_for_attestation '' REVIEW.Approved '' = reviewer_client"
    using h1 client_for_attestation_routing [of "'' REVIEW.Approved ''"] by blast
  have c2: "client_for_attestation ''Acceptance.Passed'' = reviewer_client"
    using h2 client_for_attestation_routing [of "''Acceptance.Passed''"] by blast
  have c3: "client_for_attestation ''  SECURITY.scan'' = reviewer_client"
    using h3 client_for_attestation_routing [of "''  SECURITY.scan''"] by blast
  have c4: "client_for_attestation ''Iteration.Approved '' = reviewer_client"
    using h4 client_for_attestation_routing [of "''Iteration.Approved ''"] by blast
  have c5: "client_for_attestation ''CI.passed'' = executor_client"
    using h5 client_for_attestation_routing [of "''CI.passed''"] by blast
  have c6: "client_for_attestation ''  Workshop.Clarify'' = planner_client"
    using h6 client_for_attestation_routing [of "''  Workshop.Clarify''"] by blast
  have c7: "client_for_attestation ''Unknown.Kind '' = client"
    using h7 client_for_attestation_routing [of "''Unknown.Kind ''"] by blast
  have c8: "client_for_attestation ''review.approved'' = reviewer_client"
    using h8 client_for_attestation_routing [of "''review.approved''"] by blast
  have c9: "client_for_attestation ''ci.passed'' = executor_client"
    using h9 client_for_attestation_routing [of "''ci.passed''"] by blast
  have c10: "client_for_attestation ''workshop.clarify'' = planner_client"
    using h10 client_for_attestation_routing [of "''workshop.clarify''"] by blast
  from c1 c2 c3 c4 c5 c6 c7 c8 c9 c10 show ?thesis
    by (intro conjI)
qed

text \<open>
  C10: routing is insensitive to letter case and surrounding whitespace: a kind selects
  the same client as its stripped, lower-cased form.
\<close>

theorem client_for_attestation_normalized:
  "client_for_attestation k = client_for_attestation (lower (strip k))"
  by (simp add: client_for_attestation_def normalize_idem)

section \<open>Slug derivation: results\<close>

lemma py_isalnum_lower_char: "py_isalnum (py_lower_char c) = py_isalnum c"
  by (auto simp: py_isalnum_def py_isalpha_def py_isdigit_char_def py_isdecimal_def
      py_lower_char_def Let_def)

lemma slugify_loop_collapse:
  "slugify_loop s safe last_dash =
     safe @ (if last_dash then collapse_runs (dropWhile (\<lambda>x. \<not> py_isalnum x) s)
             else collapse_runs s)"
  by (induction s arbitrary: safe last_dash) auto

lemma strip_chars_hyphen: "strip_chars s ''-'' = trim_hyphens s"
  by (simp add: strip_chars_def trim_hyphens_def)

lemma slugify_refines: "slugify v = slugify_spec v"
  by (simp add: slugify_def slugify_spec_def slugify_loop_collapse strip_chars_hyphen)

lemma collapse_runs_no_alnum:
  assumes "\<forall>c\<in>set s. \<not> py_isalnum c"
  shows "collapse_runs s = [] \<or> collapse_runs s = ''-''"
proof (cases s)
  case Nil
  then show ?thesis by simp
next
  case (Cons a list)
  have dw: "dropWhile P xs = []" if "\<forall>x\<in>set xs. P x" for P and xs :: string
    using that by simp
  from Cons assms show ?thesis
    by (simp add: dw)
qed

lemma slugify_punct:
  assumes "\<forall>c\<in>set v. \<not> py_isalnum c"
  shows "slugify v = ''feature''"
proof -
  have "\<forall>c\<in>set (lower v). \<not> py_isalnum c"
    using assms by (simp add: lower_def py_isalnum_lower_char)
  then have "collapse_runs (lower v) = [] \<or> collapse_runs (lower v) = ''-''"
    by (rule collapse_runs_no_alnum)
  then show ?thesis
    by (auto simp: slugify_refines slugify_spec_def trim_hyphens_def)
qed

text \<open>
  C9: for every input, \<open>_slugify\<close> computes what the specification describes (lower-case,
  one hyphen per maximal run of non-alphanumeric characters, hyphens trimmed at both
  ends, the placeholder \<open>feature\<close> when nothing is left); the result is never empty;
  \<open>Real-Time Alerts!\<close> gives \<open>real-time-alerts\<close>; and a title without any alphanumeric
  character gives \<open>feature\<close>.
\<close>

theorem slugify_meets_spec:
  "slugify v = slugify_spec v
   \<and> slugify v \<noteq> []
   \<and> slugify ''Real-Time Alerts!'' = ''real-time-alerts''
   \<and> ((\<forall>c\<in>set v. \<not> py_isalnum c) \<longrightarrow> slugify v = ''feature'')"
proof -
  have "slugify v \<noteq> []"
    by (simp add: slugify_def Let_def)
  moreover have "slugify ''Real-Time Alerts!'' = ''real-time-alerts''"
    by code_simp
  ultimately show ?thesis
    using slugify_refines slugify_punct by blast
qed

theorem slugify_meets_spec_witness:
  "list_all (\<lambda>c. \<not> py_isalnum c) ''?!...'' \<and> slugify ''?!...'' = ''feature''
   \<and> slugify ''?!...'' = slugify_spec ''?!...''"
proof -
  have h: "\<forall>c\<in>set ''?!...''. \<not> py_isalnum c"
    by (simp add: py_isalnum_def py_isalpha_def py_isdigit_char_def py_isdecimal_def)
  have a: "list_all (\<lambda>c. \<not> py_isalnum c) ''?!...''"
    using h by (simp add: list_all_iff)
  from h slugify_meets_spec [of "''?!...''"]
  have "slugify ''?!...'' = ''feature''" and "slugify ''?!...'' = slugify_spec ''?!...''"
    by blast+
  with a show ?thesis
    by (intro conjI)
qed

section \<open>Iteration identifier: results\<close>

lemma rx_match_suffix: "r \<in> set (rx_match ic a s) \<Longrightarrow> suffix r s"
proof (induction ic a s arbitrary: r rule: rx_match.induct)
  case (1 ic s)
  then show ?case by simp
next
  case (2 ic c s)
  then show ?case by (cases s) (auto split: if_splits simp: suffix_ConsI)
next
  case (3 ic s)
  then show ?case by (cases s) (auto simp: suffix_ConsI)
next
  case (4 ic cs s)
  then show ?case by (cases s) (auto split: if_splits simp: suffix_ConsI)
next
  case (5 ic a b s)
  from "5.prems" obtain m where m: "m \<in> set (rx_match ic a s)" "r \<in> set (rx_match ic b m)"
    by auto
  have "suffix m s" using m(1) by (rule "5.IH"(1))
  moreover have "suffix r m" using m by (rule "5.IH"(2))
  ultimately show ?case
    by (rule suffix_order.trans[rotated])
next
  case (6 ic a b s)
  then show ?case by auto
next
  case (7 ic a s)
  from "7.prems" consider "r = s"
    | m where "m \<in> set (rx_match ic a s)" "length m < length s" "r \<in> set (rx_match ic (Star a) m)"
    by (auto simp: rx_match.simps(7)[of ic a s])
  then show ?case
  proof cases
    case 1
    then show ?thesis by simp
  next
    case 2
    have "suffix m s" using 2(1) by (rule "7.IH"(1))
    moreover have "suffix r m" using 2 by (intro "7.IH"(2)) auto
    ultimately show ?thesis
      by (rule suffix_order.trans[rotated])
  qed
qed


lemma lower_char_backslash:
  assumes "py_lower_char x = backslash"
  shows "x = backslash"
proof -
  have "(of_char (py_lower_char x) :: nat) = 92"
    using assms by (simp add: backslash_def)
  then have "py_lower_char x = x"
    by (auto simp: py_lower_char_def Let_def split: if_splits)
  with assms show ?thesis by simp
qed

lemma rx_match_Lits_backslash:
  "r \<in> set (rx_match True (Seq (Lits cs) (Seq (Lit backslash) b)) s) \<Longrightarrow> backslash \<in> set s"
proof -
  assume "r \<in> set (rx_match True (Seq (Lits cs) (Seq (Lit backslash) b)) s)"
  then obtain m m' where m: "m \<in> set (rx_match True (Lits cs) s)"
    "m' \<in> set (rx_match True (Lit backslash) m)"
    by auto
  have lb: "py_lower_char backslash = backslash"
    by code_simp
  from m(2) obtain t where "m = backslash # t"
    by (cases m) (auto simp: chr_eq_def lb split: if_splits dest: lower_char_backslash[OF sym])
  moreover have "suffix m s"
    using m(1) by (rule rx_match_suffix)
  ultimately show ?thesis
    by (auto simp: suffix_def)
qed

lemma rx_group_at_backslash:
  "rx_group_at True iteration_id_prefix iteration_id_group s \<noteq> None \<Longrightarrow> backslash \<in> set s"
proof -
  assume "rx_group_at True iteration_id_prefix iteration_id_group s \<noteq> None"
  then have "rx_match True iteration_id_prefix s \<noteq> []"
    by (auto simp: rx_group_at_def)
  then obtain r where "r \<in> set (rx_match True iteration_id_prefix s)"
    by (cases "rx_match True iteration_id_prefix s") auto
  then show ?thesis
    unfolding iteration_id_prefix_def by (rule rx_match_Lits_backslash)
qed

lemma re_search_backslash:
  "re_search_group True iteration_id_prefix iteration_id_group s \<noteq> None \<Longrightarrow> backslash \<in> set s"
proof (induction s)
  case Nil
  then show ?case using rx_group_at_backslash[of "[]"] by simp
next
  case (Cons c cs)
  then show ?case
    using rx_group_at_backslash[of "c # cs"] by (auto split: option.splits)
qed

lemma extract_iteration_id_needs_backslash:
  assumes "backslash \<notin> set plan"
  shows "extract_iteration_id plan = None"
proof (cases "re_search_group True iteration_id_prefix iteration_id_group plan")
  case None
  then show ?thesis by (simp add: extract_iteration_id_def)
next
  case (Some g)
  then have "backslash \<in> set plan"
    by (intro re_search_backslash) simp
  with assms show ?thesis by simp
qed

text \<open>
  C4 holds of the pattern the specification names, not of the code: the pattern of the code
  asks for a backslash after \<open>iteration id\<close> (see the lemma above), so on the plan text
  \<open>Iteration ID: sprint-1\<close> the function returns \<open>None\<close>, not \<open>sprint-1\<close>.
\<close>

theorem extract_iteration_id_sprint_1:
  "extract_iteration_id ''Iteration ID: sprint-1'' = None"
  by code_simp

section \<open>Structured output extraction: results\<close>

lemma rx_match_star_any: "rx_match ic (Star Any) s = suffixes s"
proof (induction s)
  case Nil
  show ?case by (simp add: rx_match.simps(7)[of ic Any "[]"])
next
  case (Cons x xs)
  then show ?case by (simp add: rx_match.simps(7)[of ic Any "x # xs"])
qed

lemma lit_on_suffixes_none:
  "c \<notin> set post \<Longrightarrow> concat (map (rx_match False (Lit c)) (suffixes post)) = []"
  by (induction post) (auto simp: chr_eq_def)

lemma lit_on_suffixes_first:
  assumes "c \<notin> set post"
  shows "\<exists>X. concat (map (rx_match False (Lit c)) (suffixes (mid @ c # post))) = post # X"
proof -
  let ?f = "rx_match False (Lit c)"
  have "suffixes (mid @ c # post)
      = suffixes post @ [c # post] @ map (\<lambda>l. l @ c # post) (tl (suffixes mid))"
    by (simp add: suffixes_append)
  then have "concat (map ?f (suffixes (mid @ c # post)))
      = concat (map ?f (suffixes post)) @ ?f (c # post)
        @ concat (map ?f (map (\<lambda>l. l @ c # post) (tl (suffixes mid))))"
    by (simp only: map_append concat_append list.map concat.simps append_Nil2)
  also have "concat (map ?f (suffixes post)) = []"
    using assms by (rule lit_on_suffixes_none)
  also have "?f (c # post) = [post]"
    by (simp add: chr_eq_def)
  finally show ?thesis
    unfolding append_Nil append_Cons by blast
qed

lemma close_after_open:
  assumes "c \<notin> set post"
  shows "\<exists>X. rx_match False (Seq (Lit l) (Seq (Star Any) (Lit c))) (l # mid @ c # post) = post # X"
  using lit_on_suffixes_first[OF assms, of mid]
  by (auto simp: chr_eq_def rx_match_star_any)

lemma open_mismatch:
  "x \<noteq> l \<Longrightarrow> rx_match False (Seq (Lit l) b) (x # r) = []"
  by (simp add: chr_eq_def)

lemma rx_group_at_object:
  assumes "CHR ''}'' \<notin> set post"
  shows "rx_group_at False Eps json_span (CHR ''{'' # mid @ CHR ''}'' # post)
         = Some (CHR ''{'' # mid @ ''}'')"
proof -
  obtain X where X: "rx_match False (Seq (Lit CHR ''{'') (Seq (Star Any) (Lit CHR ''}'')))
      (CHR ''{'' # mid @ CHR ''}'' # post) = post # X"
    using close_after_open[OF assms] by blast
  have "rx_match False json_span (CHR ''{'' # mid @ CHR ''}'' # post) = post # X"
    unfolding json_span_def rx_match.simps(6) X
    by (subst open_mismatch) simp_all
  then show ?thesis
    by (simp add: rx_group_at_def)
qed

lemma rx_group_at_no_opener:
  "s = [] \<or> (hd s \<noteq> CHR ''{'' \<and> hd s \<noteq> CHR ''['') \<Longrightarrow> rx_group_at False Eps json_span s = None"
  by (cases s) (auto simp: rx_group_at_def json_span_def chr_eq_def)

lemma re_search_skips_prose:
  assumes "CHR ''{'' \<notin> set pre" "CHR ''['' \<notin> set pre"
  shows "re_search_group False Eps json_span (pre @ c # s) = re_search_group False Eps json_span (c # s)"
  using assms
proof (induction pre)
  case Nil
  then show ?case by simp
next
  case (Cons a pre)
  have "rx_group_at False Eps json_span (a # pre @ c # s) = None"
    using Cons.prems by (intro rx_group_at_no_opener) auto
  with Cons show ?case by simp
qed

lemma has_span_iff: "has_span l r t \<longleftrightarrow> (\<exists>a b. t = a @ l # b \<and> r \<in> set b)"
proof
  assume "has_span l r t"
  then have r: "r \<in> set (tl (dropWhile (\<lambda>x. x \<noteq> l) t))"
    by (simp add: has_span_def)
  then have ne: "dropWhile (\<lambda>x. x \<noteq> l) t \<noteq> []"
    by (cases "dropWhile (\<lambda>x. x \<noteq> l) t") auto
  then have "hd (dropWhile (\<lambda>x. x \<noteq> l) t) = l"
    using hd_dropWhile[of "\<lambda>x. x \<noteq> l" t] by simp
  with ne have "dropWhile (\<lambda>x. x \<noteq> l) t = l # tl (dropWhile (\<lambda>x. x \<noteq> l) t)"
    by (cases "dropWhile (\<lambda>x. x \<noteq> l) t") auto
  then have "t = takeWhile (\<lambda>x. x \<noteq> l) t @ l # tl (dropWhile (\<lambda>x. x \<noteq> l) t)"
    by (metis takeWhile_dropWhile_id)
  with r show "\<exists>a b. t = a @ l # b \<and> r \<in> set b"
    by blast
next
  assume "\<exists>a b. t = a @ l # b \<and> r \<in> set b"
  then obtain a b where t: "t = a @ l # b" and r: "r \<in> set b"
    by blast
  show "has_span l r t"
    unfolding t using r
  proof (induction a)
    case Nil
    then show ?case by (simp add: has_span_def)
  next
    case (Cons x a)
    then show ?case
      by (cases "x = l") (auto simp: has_span_def)
  qed
qed

lemma rx_group_at_span:
  assumes "rx_group_at False Eps json_span s \<noteq> None"
  shows "(\<exists>b. s = CHR ''{'' # b \<and> CHR ''}'' \<in> set b) \<or> (\<exists>b. s = CHR ''['' # b \<and> CHR '']'' \<in> set b)"
proof -
  have closes: "c \<in> set b" if "r \<in> set (rx_match False (Seq (Star Any) (Lit c)) b)" for r c b
  proof -
    from that obtain m where m: "m \<in> set (suffixes b)" "r \<in> set (rx_match False (Lit c) m)"
      by (auto simp: rx_match_star_any)
    from m(2) have "m = c # r"
      by (cases m) (auto simp: chr_eq_def split: if_splits)
    with m(1) show ?thesis
      by (auto simp: suffix_def)
  qed
  from assms have "rx_match False json_span s \<noteq> []"
    by (auto simp: rx_group_at_def)
  then obtain r where "r \<in> set (rx_match False json_span s)"
    by (cases "rx_match False json_span s") auto
  then consider "r \<in> set (rx_match False (Seq (Lit CHR ''{'') (Seq (Star Any) (Lit CHR ''}''))) s)"
    | "r \<in> set (rx_match False (Seq (Lit CHR ''['') (Seq (Star Any) (Lit CHR '']''))) s)"
    unfolding json_span_def rx_match.simps(6) set_append by blast
  then show ?thesis
  proof cases
    case 1
    then obtain m where "m \<in> set (rx_match False (Lit CHR ''{'') s)"
      "r \<in> set (rx_match False (Seq (Star Any) (Lit CHR ''}'')) m)"
      unfolding rx_match.simps(5)[of False "Lit _"] by auto
    then show ?thesis
      using closes by (cases s) (auto simp: chr_eq_def split: if_splits)
  next
    case 2
    then obtain m where "m \<in> set (rx_match False (Lit CHR ''['') s)"
      "r \<in> set (rx_match False (Seq (Star Any) (Lit CHR '']'')) m)"
      unfolding rx_match.simps(5)[of False "Lit _"] by auto
    then show ?thesis
      using closes by (cases s) (auto simp: chr_eq_def split: if_splits)
  qed
qed

lemma re_search_span:
  "re_search_group False Eps json_span t \<noteq> None
   \<Longrightarrow> has_span (CHR ''{'') (CHR ''}'') t \<or> has_span (CHR ''['') (CHR '']'') t"
proof (induction t)
  case Nil
  then show ?case using rx_group_at_span[of "[]"] by simp
next
  case (Cons x t)
  show ?case
  proof (cases "rx_group_at False Eps json_span (x # t)")
    case None
    with Cons have "has_span (CHR ''{'') (CHR ''}'') t \<or> has_span (CHR ''['') (CHR '']'') t"
      by simp
    then show ?thesis
      unfolding has_span_iff by (metis append_Cons)
  next
    case (Some g)
    then have "(\<exists>b. x # t = CHR ''{'' # b \<and> CHR ''}'' \<in> set b)
        \<or> (\<exists>b. x # t = CHR ''['' # b \<and> CHR '']'' \<in> set b)"
      by (intro rx_group_at_span) simp
    then show ?thesis
      unfolding has_span_iff by (metis append_Nil)
  qed
qed

lemma no_span_replicate:
  "c \<noteq> r \<Longrightarrow> \<not> has_span l r (replicate n c)"
  "c \<noteq> r \<Longrightarrow> \<not> has_span l r (x # replicate n c)"
  by (auto simp: has_span_def)

lemma re_search_object:
  assumes "CHR ''{'' \<notin> set pre" "CHR ''['' \<notin> set pre" "CHR ''}'' \<notin> set post"
  shows "re_search_group False Eps json_span (pre @ CHR ''{'' # mid @ CHR ''}'' # post)
         = Some (CHR ''{'' # mid @ ''}'')"
  using re_search_skips_prose[OF assms(1,2), of "CHR ''{''" "mid @ CHR ''}'' # post"]
    rx_group_at_object[OF assms(3), of mid]
  by simp

text \<open>
  C6, as stated, fails. A text without any span can still be valid JSON: \<open>42\<close> is
  returned as the number 42, not as absent. An object embedded in prose is not always
  what comes back: in \<open>see [1]: {"a": 1}\<close> the leftmost match starts at the bracket of the
  prose, and the list \<open>[1]\<close> is returned. And a text without any span can make
  \<open>json.loads\<close> raise something else than \<open>JSONDecodeError\<close>, which is not caught: on an
  opening bracket followed by 4301 digits it raises \<open>ValueError\<close>, and so does the
  extraction. Each decoder below lists what \<open>json.loads\<close> gives on the texts decoded in
  that run; on every other text it raises \<open>JSONDecodeError\<close>.
\<close>

theorem extract_json_payload_counterexample:
  \<open>\<not> has_span CHR ''{'' CHR ''}'' ''42'' \<and> \<not> has_span CHR ''['' CHR '']'' ''42''
   \<and> extract_json_payload (decoder_of [(''42'', Inr (PInt 42))]) ''42'' = Inr (PInt 42)
   \<and> extract_json_payload
        (decoder_of [(''{"a": 1}'', Inr (PDict [(''a'', PInt 1)])), (''[1]'', Inr (PList [PInt 1]))])
        ''see [1]: {"a": 1}''
      = Inr (PList [PInt 1])
   \<and> \<not> has_span CHR ''{'' CHR ''}'' (CHR ''['' # replicate 4301 CHR ''1'')
   \<and> \<not> has_span CHR ''['' CHR '']'' (CHR ''['' # replicate 4301 CHR ''1'')
   \<and> extract_json_payload (decoder_of [(CHR ''['' # replicate 4301 CHR ''1'', Inl ValueError)])
        (CHR ''['' # replicate 4301 CHR ''1'')
      = Inl ValueError\<close>
proof -
  have a: \<open>\<not> has_span CHR ''{'' CHR ''}'' ''42'' \<and> \<not> has_span CHR ''['' CHR '']'' ''42''
      \<and> extract_json_payload (decoder_of [(''42'', Inr (PInt 42))]) ''42'' = Inr (PInt 42)\<close>
    by code_simp
  have b: \<open>extract_json_payload
        (decoder_of [(''{"a": 1}'', Inr (PDict [(''a'', PInt 1)])), (''[1]'', Inr (PList [PInt 1]))])
        ''see [1]: {"a": 1}''
      = Inr (PList [PInt 1])\<close>
    by code_simp
  have c: "\<not> has_span CHR ''{'' CHR ''}'' (CHR ''['' # replicate 4301 CHR ''1'')"
    "\<not> has_span CHR ''['' CHR '']'' (CHR ''['' # replicate 4301 CHR ''1'')"
    by (simp_all add: no_span_replicate)
  have d: "extract_json_payload (decoder_of [(CHR ''['' # replicate 4301 CHR ''1'', Inl ValueError)])
        (CHR ''['' # replicate 4301 CHR ''1'')
      = Inl ValueError"
    by (simp add: extract_json_payload_def decoder_of_def)
  from a b c d show ?thesis
    by (intro conjI) simp_all
qed

text \<open>
  C6, amended. For every decoder \<open>loads\<close>: (1) a text that decodes is returned as its
  value; (2) when decoding the whole text raises \<open>JSONDecodeError\<close>, an object text
  \<open>{...}\<close> embedded in prose is returned as its value provided it decodes, the prose
  before it has no \<open>{\<close> and no \<open>[\<close>, and the prose after it has no \<open>}\<close>; (3) a text on
  which decoding raises \<open>JSONDecodeError\<close> and which has no span \<open>{...}\<close> or \<open>[...]\<close> gives
  \<open>None\<close>; (4) an exception of another class raised on the whole text leaves the
  function; (5) when decoding the whole text raises \<open>JSONDecodeError\<close> and there is a
  span, an exception raised on the span gives \<open>None\<close> if it is a \<open>JSONDecodeError\<close> and
  leaves the function otherwise.
\<close>

theorem extract_json_payload_cases:
  "(loads t = Inr v \<longrightarrow> extract_json_payload loads t = Inr v)
   \<and> (loads (pre @ obj @ post) = Inl JSONDecodeError \<and> obj = CHR ''{'' # mid @ ''}''
        \<and> loads obj = Inr (PDict d)
        \<and> CHR ''{'' \<notin> set pre \<and> CHR ''['' \<notin> set pre \<and> CHR ''}'' \<notin> set post
      \<longrightarrow> extract_json_payload loads (pre @ obj @ post) = Inr (PDict d))
   \<and> (loads t = Inl JSONDecodeError \<and> \<not> has_span CHR ''{'' CHR ''}'' t
        \<and> \<not> has_span CHR ''['' CHR '']'' t
      \<longrightarrow> extract_json_payload loads t = Inr PNone)
   \<and> (loads t = Inl e \<and> e \<noteq> JSONDecodeError \<longrightarrow> extract_json_payload loads t = Inl e)
   \<and> (loads t = Inl JSONDecodeError \<and> re_search_group False Eps json_span t = Some g
        \<and> loads g = Inl e
      \<longrightarrow> extract_json_payload loads t = (if e = JSONDecodeError then Inr PNone else Inl e))"
proof (intro conjI impI)
  assume "loads t = Inr v"
  then show "extract_json_payload loads t = Inr v"
    by (simp add: extract_json_payload_def)
next
  assume a: "loads (pre @ obj @ post) = Inl JSONDecodeError \<and> obj = CHR ''{'' # mid @ ''}''
        \<and> loads obj = Inr (PDict d)
        \<and> CHR ''{'' \<notin> set pre \<and> CHR ''['' \<notin> set pre \<and> CHR ''}'' \<notin> set post"
  then have obj: "obj = CHR ''{'' # mid @ ''}''" and post: "CHR ''}'' \<notin> set post"
    and pre: "CHR ''{'' \<notin> set pre" "CHR ''['' \<notin> set pre"
    by simp_all
  have "re_search_group False Eps json_span (pre @ obj @ post)
      = re_search_group False Eps json_span (CHR ''{'' # mid @ CHR ''}'' # post)"
    using re_search_skips_prose[OF pre] by (simp add: obj)
  also have "\<dots> = Some obj"
    using rx_group_at_object[OF post, of mid] by (simp add: obj)
  finally have srch: "re_search_group False Eps json_span (pre @ obj @ post) = Some obj" .
  from a have l1: "loads (pre @ obj @ post) = Inl JSONDecodeError"
    and l2: "loads obj = Inr (PDict d)"
    by blast+
  show "extract_json_payload loads (pre @ obj @ post) = Inr (PDict d)"
    by (simp add: extract_json_payload_def l1 srch l2)
next
  assume a: "loads t = Inl JSONDecodeError \<and> \<not> has_span CHR ''{'' CHR ''}'' t
        \<and> \<not> has_span CHR ''['' CHR '']'' t"
  then have "re_search_group False Eps json_span t = None"
    using re_search_span [of t] by blast
  with a show "extract_json_payload loads t = Inr PNone"
    by (simp add: extract_json_payload_def)
next
  assume "loads t = Inl e \<and> e \<noteq> JSONDecodeError"
  then show "extract_json_payload loads t = Inl e"
    by (simp add: extract_json_payload_def)
next
  assume "loads t = Inl JSONDecodeError \<and> re_search_group False Eps json_span t = Some g
        \<and> loads g = Inl e"
  then show "extract_json_payload loads t = (if e = JSONDecodeError then Inr PNone else Inl e)"
    by (simp add: extract_json_payload_def)
qed

theorem extract_json_payload_cases_witness:
  \<open>extract_json_payload
       (decoder_of [(''[1, {"a": null}]'', Inr (PList [PInt 1, PDict [(''a'', PNone)]]))])
       ''[1, {"a": null}]''
     = Inr (PList [PInt 1, PDict [(''a'', PNone)]])
   \<and> extract_json_payload (decoder_of [(''{"a": 1}'', Inr (PDict [(''a'', PInt 1)]))])
       ''Plan: {"a": 1} done.''
     = Inr (PDict [(''a'', PInt 1)])
   \<and> extract_json_payload (decoder_of []) ''no json here'' = Inr PNone
   \<and> extract_json_payload (decoder_of [(replicate 1000 CHR ''['', Inl RecursionError)])
       (replicate 1000 CHR ''['')
     = Inl RecursionError
   \<and> extract_json_payload (decoder_of []) ''{oops}'' = Inr PNone
   \<and> extract_json_payload
       (decoder_of [(''{"n": '' @ replicate 4301 CHR ''1'' @ ''}'', Inl ValueError)])
       (''n: {"n": '' @ replicate 4301 CHR ''1'' @ ''}'')
     = Inl ValueError\<close>
proof -
  let ?L1 = \<open>decoder_of [(''[1, {"a": null}]'', Inr (PList [PInt 1, PDict [(''a'', PNone)]]))]\<close>
  let ?L2 = \<open>decoder_of [(''{"a": 1}'', Inr (PDict [(''a'', PInt 1)]))]\<close>
  let ?L4 = "decoder_of [(replicate 1000 CHR ''['', Inl RecursionError)]"
  let ?L6 = \<open>decoder_of [(''{"n": '' @ replicate 4301 CHR ''1'' @ ''}'', Inl ValueError)]\<close>
  have h1: \<open>?L1 ''[1, {"a": null}]'' = Inr (PList [PInt 1, PDict [(''a'', PNone)]])\<close>
    by code_simp
  have h2: \<open>?L2 (''Plan: '' @ ''{"a": 1}'' @ '' done.'') = Inl JSONDecodeError
      \<and> ''{"a": 1}'' = CHR ''{'' # ''"a": 1'' @ ''}''
      \<and> ?L2 ''{"a": 1}'' = Inr (PDict [(''a'', PInt 1)])
      \<and> CHR ''{'' \<notin> set ''Plan: '' \<and> CHR ''['' \<notin> set ''Plan: '' \<and> CHR ''}'' \<notin> set '' done.''\<close>
    by code_simp
  have h3: "decoder_of [] ''no json here'' = Inl JSONDecodeError
      \<and> \<not> has_span CHR ''{'' CHR ''}'' ''no json here''
      \<and> \<not> has_span CHR ''['' CHR '']'' ''no json here''"
    by code_simp
  have h4: "?L4 (replicate 1000 CHR ''['') = Inl RecursionError \<and> RecursionError \<noteq> JSONDecodeError"
    by (simp add: decoder_of_def)
  have h5: "decoder_of [] ''{oops}'' = Inl JSONDecodeError
      \<and> re_search_group False Eps json_span ''{oops}'' = Some ''{oops}''
      \<and> decoder_of [] ''{oops}'' = Inl JSONDecodeError"
    by code_simp
  have s6: \<open>re_search_group False Eps json_span
        (''n: '' @ CHR ''{'' # (''"n": '' @ replicate 4301 CHR ''1'') @ CHR ''}'' # [])
      = Some (CHR ''{'' # (''"n": '' @ replicate 4301 CHR ''1'') @ ''}'')\<close>
    by (rule re_search_object) simp_all
  have h6: \<open>?L6 (''n: {"n": '' @ replicate 4301 CHR ''1'' @ ''}'') = Inl JSONDecodeError
      \<and> re_search_group False Eps json_span (''n: {"n": '' @ replicate 4301 CHR ''1'' @ ''}'')
          = Some (''{"n": '' @ replicate 4301 CHR ''1'' @ ''}'')
      \<and> ?L6 (''{"n": '' @ replicate 4301 CHR ''1'' @ ''}'') = Inl ValueError
      \<and> ValueError \<noteq> JSONDecodeError\<close>
    using s6 by (simp add: decoder_of_def)
  have r1: \<open>extract_json_payload ?L1 ''[1, {"a": null}]''
      = Inr (PList [PInt 1, PDict [(''a'', PNone)]])\<close>
    using h1 extract_json_payload_cases [of ?L1 \<open>''[1, {"a": null}]''\<close>] by blast
  have r2: \<open>extract_json_payload ?L2 (''Plan: '' @ ''{"a": 1}'' @ '' done.'')
      = Inr (PDict [(''a'', PInt 1)])\<close>
    using h2 extract_json_payload_cases
      [of ?L2 _ _ "''Plan: ''" \<open>''{"a": 1}''\<close> "'' done.''" \<open>''"a": 1''\<close> "[(''a'', PInt 1)]"]
    by blast
  have r3: "extract_json_payload (decoder_of []) ''no json here'' = Inr PNone"
    using h3 extract_json_payload_cases [of "decoder_of []" "''no json here''"] by blast
  have r4: "extract_json_payload ?L4 (replicate 1000 CHR ''['') = Inl RecursionError"
    using h4 extract_json_payload_cases [of ?L4 "replicate 1000 CHR ''[''" _ _ _ _ _ _ RecursionError]
    by blast
  have r5: "extract_json_payload (decoder_of []) ''{oops}'' = Inr PNone"
    using h5 extract_json_payload_cases
      [of "decoder_of []" "''{oops}''" _ _ _ _ _ _ JSONDecodeError "''{oops}''"]
    by simp
  have r6: \<open>extract_json_payload ?L6 (''n: {"n": '' @ replicate 4301 CHR ''1'' @ ''}'')
      = Inl ValueError\<close>
    using h6 extract_json_payload_cases
      [of ?L6 \<open>''n: {"n": '' @ replicate 4301 CHR ''1'' @ ''}''\<close> _ _ _ _ _ _
          ValueError \<open>''{"n": '' @ replicate 4301 CHR ''1'' @ ''}''\<close>]
    by simp
  from r1 r2 r3 r4 r5 r6 show ?thesis
    by simp
qed

section \<open>Specifications: results\<close>

lemma extract_json_payload_returns:
  assumes "\<And>s e. loads s = Inl e \<Longrightarrow> e = JSONDecodeError"
  shows "\<exists>v. extract_json_payload loads t = Inr v"
proof (cases "loads t")
  case (Inr v)
  then show ?thesis by (simp add: extract_json_payload_def)
next
  case (Inl e)
  with assms have e: "loads t = Inl JSONDecodeError" by simp
  show ?thesis
  proof (cases "re_search_group False Eps json_span t")
    case None
    with e show ?thesis by (simp add: extract_json_payload_def)
  next
    case (Some g)
    show ?thesis
    proof (cases "loads g")
      case (Inr v)
      with e Some show ?thesis by (simp add: extract_json_payload_def)
    next
      case (Inl e')
      with assms have "loads g = Inl JSONDecodeError" by simp
      with e Some show ?thesis by (simp add: extract_json_payload_def)
    qed
  qed
qed

text \<open>
  C8, as stated, fails in its last part: an extraction that fails by an exception other
  than \<open>JSONDecodeError\<close> is surfaced. On an answer of 4301 digits \<open>json.loads\<close> raises
  \<open>ValueError\<close>, which neither \<open>_extract_json_payload\<close> nor \<open>run_specifications\<close> catches.
\<close>

theorem run_specifications_value_error_counterexample:
  "fst (run_specifications
          (console_env (\<lambda>n s u. Inr (replicate 4301 CHR ''1'')) (\<lambda>n s u. Final []))
          (decoder_of [(replicate 4301 CHR ''1'', Inl ValueError)]) dumps_indent2
          [(''initial'', ''x'')] ''plan'' (start Map.empty []))
     = Inl ValueError"
  by (simp add: run_specifications_def run_agent_def bind_def throw_def console_env_def
      extract_json_payload_def decoder_of_def Let_def)

text \<open>
  C8, amended. When the model answers with a text, \<open>run_specifications\<close> ends as the
  extraction does: if the extraction returns something that is no JSON object, \<open>prd\<close> is
  the whole text and \<open>gherkin\<close> the empty string; if it returns an object, each of \<open>prd\<close>
  and \<open>gherkin\<close> is the value under that key, or the empty string when the key is missing;
  if it raises, \<open>run_specifications\<close> raises the same exception. When \<open>json.loads\<close> raises
  nothing but \<open>JSONDecodeError\<close>, the extraction does not raise and a pair is returned.
\<close>

theorem run_specifications_degrades:
  assumes "model_invoke env (length (agent_calls st)) specifications_prompt
             (specifications_input dumps discovery plan) = Inr output"
  shows "(\<forall>v. extract_json_payload loads output = Inr v \<and> (\<forall>d. v \<noteq> PDict d)
        \<longrightarrow> fst (run_specifications env loads dumps discovery plan st)
            = Inr \<lparr>prd = PStr output, gherkin = PStr []\<rparr>)
    \<and> (\<forall>d. extract_json_payload loads output = Inr (PDict d)
        \<longrightarrow> fst (run_specifications env loads dumps discovery plan st)
            = Inr \<lparr>prd = (case map_of d ''prd'' of None \<Rightarrow> PStr [] | Some v \<Rightarrow> v),
                   gherkin = (case map_of d ''gherkin'' of None \<Rightarrow> PStr [] | Some v \<Rightarrow> v)\<rparr>)
    \<and> (\<forall>e. extract_json_payload loads output = Inl e
        \<longrightarrow> fst (run_specifications env loads dumps discovery plan st) = Inl e)
    \<and> ((\<forall>s e. loads s = Inl e \<longrightarrow> e = JSONDecodeError)
        \<longrightarrow> (\<exists>sp. fst (run_specifications env loads dumps discovery plan st) = Inr sp))"
proof -
  have run: "run_agent env specifications_prompt (specifications_input dumps discovery plan) False st
      = (Inr output, st\<lparr>agent_calls := agent_calls st
           @ [(specifications_prompt, specifications_input dumps discovery plan)]\<rparr>)"
    using assms by (simp add: run_agent_def Let_def)
  have a: "fst (run_specifications env loads dumps discovery plan st)
      = Inr \<lparr>prd = PStr output, gherkin = PStr []\<rparr>"
    if "extract_json_payload loads output = Inr v" "\<forall>d. v \<noteq> PDict d" for v
    using that by (cases v) (simp_all add: run_specifications_def bind_def run ret_def)
  have b: "fst (run_specifications env loads dumps discovery plan st)
      = Inr \<lparr>prd = (case map_of d ''prd'' of None \<Rightarrow> PStr [] | Some v \<Rightarrow> v),
             gherkin = (case map_of d ''gherkin'' of None \<Rightarrow> PStr [] | Some v \<Rightarrow> v)\<rparr>"
    if "extract_json_payload loads output = Inr (PDict d)" for d
    using that by (simp add: run_specifications_def bind_def run ret_def dict_get_def)
  have c: "fst (run_specifications env loads dumps discovery plan st) = Inl e"
    if "extract_json_payload loads output = Inl e" for e
    using that by (simp add: run_specifications_def bind_def run throw_def)
  have d: "\<exists>sp. fst (run_specifications env loads dumps discovery plan st) = Inr sp"
    if "\<forall>s e. loads s = Inl e \<longrightarrow> e = JSONDecodeError"
  proof -
    from that obtain v where v: "extract_json_payload loads output = Inr v"
      using extract_json_payload_returns[of loads "output"] by blast
    show ?thesis
    proof (cases "\<exists>d. v = PDict d")
      case True
      then show ?thesis using v b by auto
    next
      case False
      then show ?thesis using v a by auto
    qed
  qed
  from a b c d show ?thesis
    by blast
qed

theorem run_specifications_degrades_witness:
  \<open>fst (run_specifications (console_env (\<lambda>n s u. Inr ''Here is the PRD.'') (\<lambda>n s u. Final []))
          (decoder_of []) dumps_indent2 [(''initial'', ''x'')] ''plan'' (start Map.empty []))
     = Inr \<lparr>prd = PStr ''Here is the PRD.'', gherkin = PStr []\<rparr>
   \<and> fst (run_specifications (console_env (\<lambda>n s u. Inr ''Sure: {"prd": "P"}'') (\<lambda>n s u. Final []))
          (decoder_of [(''{"prd": "P"}'', Inr (PDict [(''prd'', PStr ''P'')]))]) dumps_indent2
          [(''initial'', ''x'')] ''plan'' (start Map.empty []))
     = Inr \<lparr>prd = PStr ''P'', gherkin = PStr []\<rparr>
   \<and> fst (run_specifications
          (console_env (\<lambda>n s u. Inr (replicate 1000 CHR ''['')) (\<lambda>n s u. Final []))
          (decoder_of [(replicate 1000 CHR ''['', Inl RecursionError)]) dumps_indent2
          [(''initial'', ''x'')] ''plan'' (start Map.empty []))
     = Inl RecursionError
   \<and> (\<exists>sp. fst (run_specifications (console_env (\<lambda>n s u. Inr ''[1, 2]'') (\<lambda>n s u. Final []))
          (decoder_of [(''[1, 2]'', Inr (PList [PInt 1, PInt 2]))]) dumps_indent2
          [(''initial'', ''x'')] ''plan'' (start Map.empty []))
        = Inr sp)\<close>
proof -
  let ?e1 = "console_env (\<lambda>n s u. Inr ''Here is the PRD.'') (\<lambda>n s u. Final [])"
  let ?e2 = \<open>console_env (\<lambda>n s u. Inr ''Sure: {"prd": "P"}'') (\<lambda>n s u. Final [])\<close>
  let ?e3 = "console_env (\<lambda>n s u. Inr (replicate 1000 CHR ''['')) (\<lambda>n s u. Final [])"
  let ?e4 = "console_env (\<lambda>n s u. Inr ''[1, 2]'') (\<lambda>n s u. Final [])"
  let ?l2 = \<open>decoder_of [(''{"prd": "P"}'', Inr (PDict [(''prd'', PStr ''P'')]))]\<close>
  let ?l3 = "decoder_of [(replicate 1000 CHR ''['', Inl RecursionError)]"
  let ?l4 = "decoder_of [(''[1, 2]'', Inr (PList [PInt 1, PInt 2]))]"
  let ?st = "start Map.empty [] :: store state"
  let ?inp = "specifications_input dumps_indent2 [(''initial'', ''x'')] ''plan''"
  have m1: "model_invoke ?e1 (length (agent_calls ?st)) specifications_prompt ?inp
      = Inr ''Here is the PRD.''"
    by (simp add: console_env_def)
  have m2: \<open>model_invoke ?e2 (length (agent_calls ?st)) specifications_prompt ?inp
      = Inr ''Sure: {"prd": "P"}''\<close>
    by (simp add: console_env_def)
  have m3: "model_invoke ?e3 (length (agent_calls ?st)) specifications_prompt ?inp
      = Inr (replicate 1000 CHR ''['')"
    by (simp add: console_env_def)
  have m4: "model_invoke ?e4 (length (agent_calls ?st)) specifications_prompt ?inp
      = Inr ''[1, 2]''"
    by (simp add: console_env_def)
  have x1: "extract_json_payload (decoder_of []) ''Here is the PRD.'' = Inr PNone"
    by code_simp
  have x2: \<open>extract_json_payload ?l2 ''Sure: {"prd": "P"}'' = Inr (PDict [(''prd'', PStr ''P'')])\<close>
    by code_simp
  have x3: "extract_json_payload ?l3 (replicate 1000 CHR ''['') = Inl RecursionError"
    by (simp add: extract_json_payload_def decoder_of_def)
  have x4: "\<forall>s e. ?l4 s = Inl e \<longrightarrow> e = JSONDecodeError"
    by (simp add: decoder_of_def)
  have r1: "fst (run_specifications ?e1 (decoder_of []) dumps_indent2 [(''initial'', ''x'')] ''plan'' ?st)
      = Inr \<lparr>prd = PStr ''Here is the PRD.'', gherkin = PStr []\<rparr>"
    using run_specifications_degrades [OF m1, of "decoder_of []"] x1 by simp
  have r2: "fst (run_specifications ?e2 ?l2 dumps_indent2 [(''initial'', ''x'')] ''plan'' ?st)
      = Inr \<lparr>prd = PStr ''P'', gherkin = PStr []\<rparr>"
    using run_specifications_degrades [OF m2, of ?l2] x2 by simp
  have r3: "fst (run_specifications ?e3 ?l3 dumps_indent2 [(''initial'', ''x'')] ''plan'' ?st)
      = Inl RecursionError"
    using run_specifications_degrades [OF m3, of ?l3] x3 by simp
  have r4: "\<exists>sp. fst (run_specifications ?e4 ?l4 dumps_indent2 [(''initial'', ''x'')] ''plan'' ?st)
      = Inr sp"
    using run_specifications_degrades [OF m4, of ?l4] x4 by blast
  from r1 r2 r3 r4 show ?thesis
    by (intro conjI)
qed

section \<open>External state access: results\<close>

lemma get_task_cases:
  "get_task env task_id st =
     (let (resp, w') = backend env (world st) (GetTask task_id);
          st' = st\<lparr>world := w', requests := requests st @ [(client, GetTask task_id)]\<rparr>
      in if status_code resp = 404 then (Inr PNone, st')
         else if 200 \<le> status_code resp \<and> status_code resp < 300
         then (Inr (body resp), st')
         else (Inl (APIError (status_code resp) (body resp)), st'))"
  by (auto simp: get_task_def client_request_def Let_def split: prod.splits)

lemma get_task_requests:
  "requests (snd (get_task env task_id st)) = requests st @ [(client, GetTask task_id)]"
  by (simp add: get_task_cases Let_def split: prod.splits)

lemma client_request_requests:
  "requests (snd (client_request env cl rq st)) = requests st @ [(cl, rq)]"
  by (simp add: client_request_def Let_def split: prod.splits)

text \<open>
  C7. For every backend: a 404 reply to the lookup makes \<open>_get_task\<close> return \<open>None\<close>;
  every other reply with a status outside 200 to 299 makes it raise \<open>APIError\<close> with that
  status and body; a reply with a status from 200 to 299 is returned as the item.
  \<open>ensure_workshop_task\<close> returns the item the lookup gave, having sent nothing but the
  lookup, when that item is not \<open>None\<close>; when the lookup gave \<open>None\<close> it posts a new item
  with the given fields, after the lookup; and it raises what the lookup raised, having
  sent nothing but the lookup.
\<close>

theorem get_task_ensure_workshop_task:
  "(status_code (fst (backend env (world st) (GetTask task_id))) = 404
      \<longrightarrow> fst (get_task env task_id st) = Inr PNone)
   \<and> (\<not> (200 \<le> status_code (fst (backend env (world st) (GetTask task_id)))
           \<and> status_code (fst (backend env (world st) (GetTask task_id))) < 300)
       \<and> status_code (fst (backend env (world st) (GetTask task_id))) \<noteq> 404
      \<longrightarrow> fst (get_task env task_id st)
            = Inl (APIError (status_code (fst (backend env (world st) (GetTask task_id))))
                            (body (fst (backend env (world st) (GetTask task_id))))))
   \<and> (200 \<le> status_code (fst (backend env (world st) (GetTask task_id)))
       \<and> status_code (fst (backend env (world st) (GetTask task_id))) < 300
      \<longrightarrow> fst (get_task env task_id st)
            = Inr (body (fst (backend env (world st) (GetTask task_id)))))
   \<and> (fst (get_task env task_id st) = Inr task \<and> task \<noteq> PNone
      \<longrightarrow> ensure_workshop_task env task_id title preset description st
            = (Inr task, snd (get_task env task_id st))
          \<and> requests (snd (ensure_workshop_task env task_id title preset description st))
            = requests st @ [(client, GetTask task_id)])
   \<and> (fst (get_task env task_id st) = Inr PNone
      \<longrightarrow> ensure_workshop_task env task_id title preset description st
            = client_request env client
                (PostTask (PDict
                   [(''id'', PStr task_id), (''title'', PStr title), (''type'', PStr ''workshop''),
                    (''description'', PStr description),
                    (''policy'', PDict [(''preset'', PStr preset)])]))
                (snd (get_task env task_id st))
          \<and> requests (snd (ensure_workshop_task env task_id title preset description st))
            = requests st @ [(client, GetTask task_id),
                (client, PostTask (PDict
                   [(''id'', PStr task_id), (''title'', PStr title), (''type'', PStr ''workshop''),
                    (''description'', PStr description),
                    (''policy'', PDict [(''preset'', PStr preset)])]))])
   \<and> (fst (get_task env task_id st) = Inl e
      \<longrightarrow> ensure_workshop_task env task_id title preset description st
            = (Inl e, snd (get_task env task_id st))
          \<and> requests (snd (ensure_workshop_task env task_id title preset description st))
            = requests st @ [(client, GetTask task_id)])"
proof -
  obtain r s' where g: "get_task env task_id st = (r, s')"
    by (cases "get_task env task_id st")
  have rq: "requests s' = requests st @ [(client, GetTask task_id)]"
    using get_task_requests[of env task_id st] by (simp add: g)
  let ?post = "PostTask (PDict
                   [(''id'', PStr task_id), (''title'', PStr title), (''type'', PStr ''workshop''),
                    (''description'', PStr description),
                    (''policy'', PDict [(''preset'', PStr preset)])])"
  have a: "status_code (fst (backend env (world st) (GetTask task_id))) = 404
      \<longrightarrow> fst (get_task env task_id st) = Inr PNone"
    by (simp add: get_task_cases Let_def split: prod.splits)
  have b: "\<not> (200 \<le> status_code (fst (backend env (world st) (GetTask task_id)))
           \<and> status_code (fst (backend env (world st) (GetTask task_id))) < 300)
       \<and> status_code (fst (backend env (world st) (GetTask task_id))) \<noteq> 404
      \<longrightarrow> fst (get_task env task_id st)
            = Inl (APIError (status_code (fst (backend env (world st) (GetTask task_id))))
                            (body (fst (backend env (world st) (GetTask task_id)))))"
    by (simp add: get_task_cases Let_def split: prod.splits)
  have b': "200 \<le> status_code (fst (backend env (world st) (GetTask task_id)))
       \<and> status_code (fst (backend env (world st) (GetTask task_id))) < 300
      \<longrightarrow> fst (get_task env task_id st)
            = Inr (body (fst (backend env (world st) (GetTask task_id))))"
    by (simp add: get_task_cases Let_def split: prod.splits)
  have c: "fst (get_task env task_id st) = Inr task \<and> task \<noteq> PNone
      \<longrightarrow> ensure_workshop_task env task_id title preset description st
            = (Inr task, snd (get_task env task_id st))
          \<and> requests (snd (ensure_workshop_task env task_id title preset description st))
            = requests st @ [(client, GetTask task_id)]"
    using rq by (auto simp: ensure_workshop_task_def bind_def ret_def g)
  have d: "fst (get_task env task_id st) = Inr PNone
      \<longrightarrow> ensure_workshop_task env task_id title preset description st
            = client_request env client ?post (snd (get_task env task_id st))
          \<and> requests (snd (ensure_workshop_task env task_id title preset description st))
            = requests st @ [(client, GetTask task_id), (client, ?post)]"
    using rq client_request_requests[of env client ?post s']
    by (auto simp: ensure_workshop_task_def bind_def ret_def g)
  have e: "fst (get_task env task_id st) = Inl e
      \<longrightarrow> ensure_workshop_task env task_id title preset description st
            = (Inl e, snd (get_task env task_id st))
          \<and> requests (snd (ensure_workshop_task env task_id title preset description st))
            = requests st @ [(client, GetTask task_id)]"
    using rq by (auto simp: ensure_workshop_task_def bind_def ret_def g)
  from a b b' c d e show ?thesis
    by blast
qed

theorem get_task_ensure_workshop_task_witness:
  "fst (get_task (console_env (\<lambda>n s u. Inr []) (\<lambda>n s u. Final [])) ''w'' (start Map.empty []))
     = Inr PNone
   \<and> fst (get_task
        ((console_env (\<lambda>n s u. Inr []) (\<lambda>n s u. Final []))
           \<lparr>backend := \<lambda>w rq. (\<lparr>status_code = 500, body = PStr ''down''\<rparr>, w)\<rparr>)
        ''w'' (start Map.empty [])) = Inl (APIError 500 (PStr ''down''))
   \<and> fst (get_task
        ((console_env (\<lambda>n s u. Inr []) (\<lambda>n s u. Final []))
           \<lparr>backend := \<lambda>w rq. (\<lparr>status_code = 103, body = PDict [(''id'', PStr ''w'')]\<rparr>, w)\<rparr>)
        ''w'' (start Map.empty [])) = Inl (APIError 103 (PDict [(''id'', PStr ''w'')]))
   \<and> fst (get_task
        ((console_env (\<lambda>n s u. Inr []) (\<lambda>n s u. Final []))
           \<lparr>backend := \<lambda>w rq. (\<lparr>status_code = 200, body = PDict [(''id'', PStr ''w'')]\<rparr>, w)\<rparr>)
        ''w'' (start Map.empty [])) = Inr (PDict [(''id'', PStr ''w'')])
   \<and> ensure_workshop_task (console_env (\<lambda>n s u. Inr []) (\<lambda>n s u. Final []))
        ''w'' ''T'' ''workshop.clarify'' ''D''
        (start [''w'' \<mapsto> \<lparr>item_id = ''w'', item_title = PStr ''Old'', item_type = PStr ''workshop'',
                  item_description = PStr ''Kept'', item_policy = PNone,
                  work_outcomes = [(''output'', PStr ''done'')]\<rparr>] [])
     = (Inr (item_json \<lparr>item_id = ''w'', item_title = PStr ''Old'', item_type = PStr ''workshop'',
                  item_description = PStr ''Kept'', item_policy = PNone,
                  work_outcomes = [(''output'', PStr ''done'')]\<rparr>),
        (start [''w'' \<mapsto> \<lparr>item_id = ''w'', item_title = PStr ''Old'', item_type = PStr ''workshop'',
                  item_description = PStr ''Kept'', item_policy = PNone,
                  work_outcomes = [(''output'', PStr ''done'')]\<rparr>] [])
          \<lparr>requests := [(client, GetTask ''w'')]\<rparr>)
   \<and> fst (ensure_workshop_task (console_env (\<lambda>n s u. Inr []) (\<lambda>n s u. Final []))
        ''w'' ''T'' ''workshop.clarify'' ''D'' (start Map.empty []))
     = Inr (item_json \<lparr>item_id = ''w'', item_title = PStr ''T'', item_type = PStr ''workshop'',
                  item_description = PStr ''D'',
                  item_policy = PDict [(''preset'', PStr ''workshop.clarify'')],
                  work_outcomes = []\<rparr>)
   \<and> ensure_workshop_task
        ((console_env (\<lambda>n s u. Inr []) (\<lambda>n s u. Final []))
           \<lparr>backend := \<lambda>w rq. (\<lparr>status_code = 500, body = PStr ''down''\<rparr>, w)\<rparr>)
        ''w'' ''T'' ''workshop.clarify'' ''D'' (start Map.empty [])
     = (Inl (APIError 500 (PStr ''down'')),
        (start Map.empty [])\<lparr>requests := [(client, GetTask ''w'')]\<rparr>)"
proof -
  let ?E = "console_env (\<lambda>n s u. Inr []) (\<lambda>n s u. Final [])"
  let ?F = "?E\<lparr>backend := \<lambda>w rq. (\<lparr>status_code = 500, body = PStr ''down''\<rparr>, w)\<rparr>"
  let ?G = "?E\<lparr>backend := \<lambda>w rq. (\<lparr>status_code = 103, body = PDict [(''id'', PStr ''w'')]\<rparr>, w)\<rparr>"
  let ?H = "?E\<lparr>backend := \<lambda>w rq. (\<lparr>status_code = 200, body = PDict [(''id'', PStr ''w'')]\<rparr>, w)\<rparr>"
  let ?it = "\<lparr>item_id = ''w'', item_title = PStr ''Old'', item_type = PStr ''workshop'',
                  item_description = PStr ''Kept'', item_policy = PNone,
                  work_outcomes = [(''output'', PStr ''done'')]\<rparr>"
  let ?S0 = "start Map.empty [] :: store state"
  let ?S1 = "start [''w'' \<mapsto> ?it] []"
  have h1: "status_code (fst (backend ?E (world ?S0) (GetTask ''w''))) = 404"
    by (simp add: console_env_def start_def not_found_def)
  have h2: "\<not> (200 \<le> status_code (fst (backend ?F (world ?S0) (GetTask ''w'')))
               \<and> status_code (fst (backend ?F (world ?S0) (GetTask ''w''))) < 300)
      \<and> status_code (fst (backend ?F (world ?S0) (GetTask ''w''))) \<noteq> 404"
    by (simp add: console_env_def start_def)
  have h2': "\<not> (200 \<le> status_code (fst (backend ?G (world ?S0) (GetTask ''w'')))
               \<and> status_code (fst (backend ?G (world ?S0) (GetTask ''w''))) < 300)
      \<and> status_code (fst (backend ?G (world ?S0) (GetTask ''w''))) \<noteq> 404"
    by (simp add: console_env_def start_def)
  have h2'': "200 \<le> status_code (fst (backend ?H (world ?S0) (GetTask ''w'')))
               \<and> status_code (fst (backend ?H (world ?S0) (GetTask ''w''))) < 300"
    by (simp add: console_env_def start_def)
  have g1: "get_task ?E ''w'' ?S1 = (Inr (item_json ?it), ?S1\<lparr>requests := [(client, GetTask ''w'')]\<rparr>)"
    by (simp add: get_task_cases console_env_def start_def)
  have g2: "snd (get_task ?F ''w'' ?S0) = ?S0\<lparr>requests := [(client, GetTask ''w'')]\<rparr>"
    by (simp add: get_task_cases console_env_def start_def)
  have h3: "fst (get_task ?E ''w'' ?S1) = Inr (item_json ?it) \<and> item_json ?it \<noteq> PNone"
    by (simp add: g1 item_json_def)
  have c1: "fst (get_task ?E ''w'' ?S0) = Inr PNone"
    using h1 get_task_ensure_workshop_task [of ?E ?S0 "''w''"] by blast
  have c2: "fst (get_task ?F ''w'' ?S0) = Inl (APIError 500 (PStr ''down''))"
    using h2 get_task_ensure_workshop_task [of ?F ?S0 "''w''"]
    by (simp add: console_env_def start_def)
  have c2': "fst (get_task ?G ''w'' ?S0) = Inl (APIError 103 (PDict [(''id'', PStr ''w'')]))"
    using h2' get_task_ensure_workshop_task [of ?G ?S0 "''w''"]
    by (simp add: console_env_def start_def)
  have c2'': "fst (get_task ?H ''w'' ?S0) = Inr (PDict [(''id'', PStr ''w'')])"
    using h2'' get_task_ensure_workshop_task [of ?H ?S0 "''w''"]
    by (simp add: console_env_def start_def)
  have c3: "ensure_workshop_task ?E ''w'' ''T'' ''workshop.clarify'' ''D'' ?S1
      = (Inr (item_json ?it), ?S1\<lparr>requests := [(client, GetTask ''w'')]\<rparr>)"
    using h3 get_task_ensure_workshop_task
      [of ?E ?S1 "''w''" "item_json ?it" "''T''" "''workshop.clarify''" "''D''"]
    by (simp add: g1)
  have c4: "ensure_workshop_task ?E ''w'' ''T'' ''workshop.clarify'' ''D'' ?S0
      = client_request ?E client
          (PostTask (PDict
             [(''id'', PStr ''w''), (''title'', PStr ''T''), (''type'', PStr ''workshop''),
              (''description'', PStr ''D''),
              (''policy'', PDict [(''preset'', PStr ''workshop.clarify'')])]))
          (snd (get_task ?E ''w'' ?S0))"
    using c1 get_task_ensure_workshop_task
      [of ?E ?S0 "''w''" _ "''T''" "''workshop.clarify''" "''D''"]
    by blast
  have c5: "fst (ensure_workshop_task ?E ''w'' ''T'' ''workshop.clarify'' ''D'' ?S0)
      = Inr (item_json \<lparr>item_id = ''w'', item_title = PStr ''T'', item_type = PStr ''workshop'',
                  item_description = PStr ''D'',
                  item_policy = PDict [(''preset'', PStr ''workshop.clarify'')],
                  work_outcomes = []\<rparr>)"
    unfolding c4
    by (simp add: get_task_cases client_request_def console_env_def start_def not_found_def
        new_item_def dict_get_def Let_def)
  have c6: "ensure_workshop_task ?F ''w'' ''T'' ''workshop.clarify'' ''D'' ?S0
      = (Inl (APIError 500 (PStr ''down'')), ?S0\<lparr>requests := [(client, GetTask ''w'')]\<rparr>)"
    using c2 get_task_ensure_workshop_task
      [of ?F ?S0 "''w''" _ "''T''" "''workshop.clarify''" "''D''" "APIError 500 (PStr ''down'')"]
    by (simp add: g2)
  from c1 c2 c2' c2'' c3 c5 c6 show ?thesis
    by (intro conjI)
qed

section \<open>The human interaction gate: results\<close>

lemma rstrip_snoc_space: "py_isspace c \<Longrightarrow> rstrip (x @ [c]) = rstrip x"
  by (simp add: rstrip_def)

lemma strip_snoc_newline: "strip (m @ [newline]) = strip m"
proof (cases "\<forall>c\<in>set m. py_isspace c")
  case True
  have nl: "py_isspace newline"
    by (simp add: py_isspace_def newline_def)
  from True have "lstrip m = []" "lstrip (m @ [newline]) = []"
    using nl by (simp_all add: lstrip_def)
  then show ?thesis
    by (simp add: strip_def)
next
  case False
  then have "lstrip (m @ [newline]) = lstrip m @ [newline]"
    by (auto simp: lstrip_def dropWhile_append1)
  then show ?thesis
    by (simp add: strip_def rstrip_snoc_space py_isspace_def newline_def)
qed

lemma strip_chomp: "l \<noteq> [] \<Longrightarrow> strip (if last l = newline then butlast l else l) = strip l"
proof (cases "last l = newline")
  case True
  assume "l \<noteq> []"
  with True have "l = butlast l @ [newline]"
    by (metis append_butlast_last_id)
  then have "strip l = strip (butlast l)"
    using strip_snoc_newline[of "butlast l"] by simp
  with True show ?thesis by simp
next
  case False
  then show ?thesis by simp
qed

lemma py_input_line:
  "stdin st = l # ls \<Longrightarrow> l \<noteq> [] \<Longrightarrow>
   bind py_input f st = f (if last l = newline then butlast l else l) (st\<lparr>stdin := ls\<rparr>)"
  by (simp add: py_input_def bind_def)

lemma py_isdigit_nonempty: "py_isdigit s \<Longrightarrow> s \<noteq> []"
  by (simp add: py_isdigit_def)

lemma client_request_last:
  "client_request env cl rq st = (r, st') \<Longrightarrow> last (requests st') = (cl, rq)"
  by (auto simp: client_request_def Let_def split: prod.splits if_splits)

lemma append_workshop_conversation_last:
  assumes "append_workshop_conversation env tid q a st = (Inr u, st')"
  shows "\<exists>ts. last (requests st')
      = (client, AppendWorkOutcomes tid ''conversation''
           (PDict [(''ts'', PStr ts), (''question'', PStr q), (''answer'', PStr a)]))"
proof -
  from assms obtain r where "client_request env client
      (AppendWorkOutcomes tid ''conversation''
         (PDict [(''ts'', PStr (utcnow_isoformat env (clock st))), (''question'', PStr q),
                 (''answer'', PStr a)])) (st\<lparr>clock := Suc (clock st)\<rparr>) = (r, st')"
    by (auto simp: append_workshop_conversation_def append_work_outcomes_def bind_def ret_def
        split: prod.splits sum.splits)
  then show ?thesis
    by (blast dest: client_request_last)
qed

lemma log_conversation_last:
  assumes "log_conversation env q a st = (Inr u, st')"
  shows "\<exists>tid ts. last (requests st')
      = (client, AppendWorkOutcomes tid ''conversation''
           (PDict [(''ts'', PStr ts), (''question'', PStr q), (''answer'', PStr a)]))"
proof -
  from assms obtain tid s1 where "append_workshop_conversation env tid q a s1 = (Inr u, st')"
    by (auto simp: log_conversation_def bind_def split: prod.splits sum.splits)
  then show ?thesis
    by (blast dest: append_workshop_conversation_last)
qed

text \<open>
  C5, amended: when the line read is a number that selects a listed option whose text,
  lower-cased, starts with \<open>other\<close>, and the line read for the detail is empty once
  stripped, \<open>ask_human_question_local\<close> does what logging the text of the option and
  returning it does. So every such call that returns, returns the text of the selected
  option, and the last request it sent appends the conversation entry made of the
  question and that text.
\<close>

theorem ask_other_without_detail:
  assumes "HUMAN_REVIEW_MODE env = ''interactive''" and "stdin_isatty env"
    and "stdin st = l1 # l2 # rest" and "l1 \<noteq> []" and "l2 \<noteq> []"
    and "py_isdigit (strip l1)" and "py_int (strip l1) = Some n"
    and "1 \<le> n" and "n \<le> int (length opts)"
    and "startswith (lower (opts ! nat (n - 1))) ''other''"
    and "strip l2 = []"
  shows "ask_human_question_local env question (Some opts) st
         = bind (log_conversation env question (opts ! nat (n - 1)))
             (\<lambda>_. ret (opts ! nat (n - 1))) (st\<lparr>stdin := rest\<rparr>)
     \<and> (\<forall>r st'. ask_human_question_local env question (Some opts) st = (Inr r, st')
          \<longrightarrow> r = opts ! nat (n - 1)
            \<and> (\<exists>tid ts. last (requests st')
                 = (client, AppendWorkOutcomes tid ''conversation''
                      (PDict [(''ts'', PStr ts), (''question'', PStr question),
                              (''answer'', PStr (opts ! nat (n - 1)))]))))"
proof -
  have ne: "opts \<noteq> []" using assms(8,9) by auto
  have s1: "strip l1 \<noteq> []" using assms(6) by (rule py_isdigit_nonempty)
  have inp: "bind py_input f (st\<lparr>stdin := l2 # rest\<rparr>)
      = f (if last l2 = newline then butlast l2 else l2) (st\<lparr>stdin := rest\<rparr>)" for f :: "string \<Rightarrow> (string, 'a) prog"
    using py_input_line[of "st\<lparr>stdin := l2 # rest\<rparr>" l2 rest f] assms(5) by simp
  have d: "strip (if last l2 = newline then butlast l2 else l2) = []"
    using strip_chomp[OF assms(5)] assms(11) by simp
  have eq: "ask_human_question_local env question (Some opts) st
         = bind (log_conversation env question (opts ! nat (n - 1)))
             (\<lambda>_. ret (opts ! nat (n - 1))) (st\<lparr>stdin := rest\<rparr>)"
    unfolding ask_human_question_local_def
    using assms(1,2,4,6,7,8,9,10) ne s1
    by (simp add: assms(3) opts_of_def inp d)
  have "r = opts ! nat (n - 1)
      \<and> (\<exists>tid ts. last (requests st')
             = (client, AppendWorkOutcomes tid ''conversation''
                  (PDict [(''ts'', PStr ts), (''question'', PStr question),
                          (''answer'', PStr (opts ! nat (n - 1)))])))"
    if "ask_human_question_local env question (Some opts) st = (Inr r, st')" for r st'
  proof -
    from that eq have "log_conversation env question (opts ! nat (n - 1)) (st\<lparr>stdin := rest\<rparr>)
        = (Inr (), st') \<and> r = opts ! nat (n - 1)"
      by (auto simp: bind_def ret_def split: prod.splits sum.splits)
    then show ?thesis
      by (blast dest: log_conversation_last)
  qed
  with eq show ?thesis
    by blast
qed

text \<open>
  C5, as stated, fails: with the options A, B and \<open>Other (type...)\<close>, the answer \<open>3\<close>
  and an empty detail, what is logged and returned is the text of the option, not \<open>3\<close>.
\<close>

theorem ask_other_without_detail_counterexample:
  "fst (ask_human_question_local (console_env (\<lambda>n s u. Inr []) (\<lambda>n s u. Final []))
          ''Which one?'' (Some [''A'', ''B'', ''Other (type...)''])
          (start Map.empty [''3\<newline>'', ''\<newline>'']))
     = Inr ''Other (type...)''
   \<and> ''Other (type...)'' \<noteq> ''3''
   \<and> last (requests (snd (ask_human_question_local
          (console_env (\<lambda>n s u. Inr []) (\<lambda>n s u. Final []))
          ''Which one?'' (Some [''A'', ''B'', ''Other (type...)''])
          (start Map.empty [''3\<newline>'', ''\<newline>'']))))
     = (client, AppendWorkOutcomes ''problem-refinement'' ''conversation''
          (PDict [(''ts'', PStr ''2024-01-01T00:00:00+00:00''), (''question'', PStr ''Which one?''),
                  (''answer'', PStr ''Other (type...)'')]))"
  by code_simp

theorem ask_other_without_detail_witness:
  "ask_human_question_local (console_env (\<lambda>n s u. Inr []) (\<lambda>n s u. Final []))
          ''Which one?'' (Some [''A'', ''B'', ''Other (type...)''])
          (start Map.empty [''3\<newline>'', ''\<newline>'', ''later\<newline>''])
     = bind (log_conversation (console_env (\<lambda>n s u. Inr []) (\<lambda>n s u. Final []))
               ''Which one?'' ''Other (type...)'')
         (\<lambda>_. ret ''Other (type...)'') (start Map.empty [''later\<newline>''])
   \<and> fst (ask_human_question_local (console_env (\<lambda>n s u. Inr []) (\<lambda>n s u. Final []))
          ''Which one?'' (Some [''A'', ''B'', ''Other (type...)''])
          (start Map.empty [''3\<newline>'', ''\<newline>'', ''later\<newline>'']))
     = Inr ''Other (type...)''"
proof -
  let ?E = "console_env (\<lambda>n s u. Inr []) (\<lambda>n s u. Final []) :: store env"
  let ?S = "start Map.empty [''3\<newline>'', ''\<newline>'', ''later\<newline>'']"
  have h: "HUMAN_REVIEW_MODE ?E = ''interactive''" "stdin_isatty ?E"
    "stdin ?S = ''3\<newline>'' # ''\<newline>'' # [''later\<newline>'']"
    by (simp_all add: console_env_def start_def)
  have k: "''3\<newline>'' \<noteq> []" "''\<newline>'' \<noteq> []" "py_isdigit (strip ''3\<newline>'')"
    "py_int (strip ''3\<newline>'') = Some 3" "(1::int) \<le> 3"
    "(3::int) \<le> int (length [''A'', ''B'', ''Other (type...)''])"
    "startswith (lower ([''A'', ''B'', ''Other (type...)''] ! nat (3 - 1))) ''other''"
    "strip ''\<newline>'' = []"
    by code_simp+
  have e: "?S\<lparr>stdin := [''later\<newline>'']\<rparr> = start Map.empty [''later\<newline>'']"
    by (simp add: start_def)
  have i: "[''A'', ''B'', ''Other (type...)''] ! nat (3 - 1) = ''Other (type...)''"
    by code_simp
  have r: "fst (ask_human_question_local ?E ''Which one?'' (Some [''A'', ''B'', ''Other (type...)'']) ?S)
     = Inr ''Other (type...)''"
    by code_simp
  from ask_other_without_detail [OF h k, of "''Which one?''"] r show ?thesis
    unfolding e i by blast
qed

section \<open>Discovery phases: reasoning about a run\<close>

lemma bind_assoc: "bind (bind m f) g = bind m (\<lambda>x. bind (f x) g)"
  by (auto simp: bind_def fun_eq_iff split: prod.splits sum.splits)

lemma bind_ret_right: "bind m ret = m"
  by (auto simp: bind_def ret_def fun_eq_iff split: prod.splits sum.splits)

lemma continue_discovery_blocks:
  "continue_discovery env ps existing =
     bind (ensure_workshop_tasks env) (\<lambda>_.
     bind (initial_block env ps (case existing of None \<Rightarrow> [] | Some d \<Rightarrow> d)) (\<lambda>d.
     bind (phase_block env (discovery_context ps d) ''event_storming''
             ''workshop-eventstorming'' ''Event Storming'' d) (\<lambda>d1.
     bind (phase_block env (discovery_context ps d) ''decision_workshop''
             ''workshop-decision'' ''Decision Workshop'' d1) (\<lambda>d2.
       phase_block env (discovery_context ps d) ''clarify''
             ''workshop-clarify'' ''Clarification'' d2))))"
  unfolding continue_discovery_def ensure_workshop_tasks_def initial_block_def phase_block_def
    bind_assoc bind_ret_right
  by (rule refl)

subsection \<open>Rules\<close>

lemma hoare_ret: "R x \<Longrightarrow> hoare I (ret x) R"
  by (simp add: hoare_def ret_def)

lemma hoare_throw: "hoare I (throw e) R"
  by (simp add: hoare_def throw_def)

lemma hoare_lift: "(\<And>x. r = Inr x \<Longrightarrow> R x) \<Longrightarrow> hoare I (lift r) R"
  by (simp add: hoare_def lift_def)

lemma hoare_bind:
  assumes "hoare I m R" and "\<And>x. R x \<Longrightarrow> hoare I (f x) S"
  shows "hoare I (bind m f) S"
  unfolding hoare_def
proof (intro allI impI)
  fix st assume i: "I st"
  obtain r s1 where m: "m st = (r, s1)" by (cases "m st")
  from assms(1) i m have s1: "I s1" and r: "\<And>x. r = Inr x \<Longrightarrow> R x"
    by (auto simp: hoare_def)
  show "I (snd (bind m f st)) \<and> (\<forall>x. fst (bind m f st) = Inr x \<longrightarrow> S x)"
  proof (cases r)
    case (Inl e)
    with m s1 show ?thesis by (simp add: bind_def)
  next
    case (Inr x)
    with r have "R x" by simp
    then have "hoare I (f x) S" by (rule assms(2))
    with s1 have "I (snd (f x s1)) \<and> (\<forall>y. fst (f x s1) = Inr y \<longrightarrow> S y)"
      by (simp add: hoare_def)
    with m Inr show ?thesis by (simp add: bind_def)
  qed
qed

lemma hoare_weaken: "hoare I m R \<Longrightarrow> (\<And>x. R x \<Longrightarrow> S x) \<Longrightarrow> hoare I m S"
  by (simp add: hoare_def)

lemma hoare_seq:
  "hoare I m (\<lambda>_. True) \<Longrightarrow> (\<And>x. hoare I (f x) S) \<Longrightarrow> hoare I (bind m f) S"
  by (rule hoare_bind)

lemma hoare_if:
  "(c \<Longrightarrow> hoare I a R) \<Longrightarrow> (\<not> c \<Longrightarrow> hoare I b R) \<Longrightarrow> hoare I (if c then a else b) R"
  by simp

lemma hoare_state:
  "(\<And>st. I st \<Longrightarrow> hoare I (\<lambda>s. m st s) R) \<Longrightarrow> (\<And>st. I st \<Longrightarrow> I (g st))
   \<Longrightarrow> hoare I (\<lambda>st. m st (g st)) R"
  unfolding hoare_def by blast

subsection \<open>The invariant and the primitive steps\<close>

lemma Inv_upd [simp]:
  "Inv W G cs0 (st\<lparr>stdin := l\<rparr>) = Inv W G cs0 st"
  "Inv W G cs0 (st\<lparr>clock := n\<rparr>) = Inv W G cs0 st"
  "Inv W G cs0 (st\<lparr>CURRENT_WORKSHOP_ID := c\<rparr>) = Inv W G cs0 st"
  "Inv W G cs0 (st\<lparr>requests := rs\<rparr>) = Inv W G cs0 st"
  by (simp_all add: Inv_def)

lemma hoare_client_request:
  assumes "frame env W task" and "\<not> writes_output task rq"
  shows "hoare (Inv W G cs0) (client_request env cl rq) (\<lambda>_. True)"
  using assms
  by (auto simp: hoare_def client_request_def Let_def Inv_def frame_def split: prod.splits
      dest!: spec[where x=rq])

lemma snd_get_task:
  "snd (get_task env i st) = snd (client_request env client (GetTask i) st)"
  by (auto simp: get_task_def split: prod.splits sum.splits error.splits)

lemma hoare_get_task:
  assumes "frame env W task"
  shows "hoare (Inv W G cs0) (get_task env i) (\<lambda>_. True)"
  using hoare_client_request[OF assms, of "GetTask i" G cs0 client]
  by (simp add: hoare_def snd_get_task)

lemma hoare_ensure_workshop_task:
  assumes "frame env W task"
  shows "hoare (Inv W G cs0) (ensure_workshop_task env i title preset description) (\<lambda>_. True)"
  unfolding ensure_workshop_task_def
  by (intro hoare_seq hoare_if hoare_get_task[OF assms] hoare_client_request[OF assms]
      hoare_ret) simp_all

lemma hoare_ensure_workshop_tasks:
  assumes "frame env W task"
  shows "hoare (Inv W G cs0) (ensure_workshop_tasks env) (\<lambda>_. True)"
  unfolding ensure_workshop_tasks_def
  by (intro hoare_seq hoare_ensure_workshop_task[OF assms])

lemma hoare_ensure_problem_refinement_task:
  assumes "frame env W task"
  shows "hoare (Inv W G cs0) (ensure_problem_refinement_task env) (\<lambda>_. True)"
  unfolding ensure_problem_refinement_task_def ensure_problem_refinement_task_exists_def
    create_problem_refinement_task_def
  by (intro hoare_seq hoare_if hoare_get_task[OF assms] hoare_client_request[OF assms]
      hoare_ret hoare_lift) simp_all

lemma hoare_put_work_outcomes:
  assumes "frame env W task" and "i \<noteq> task \<or> f \<noteq> ''output''"
  shows "hoare (Inv W G cs0) (put_work_outcomes env cl i f v) (\<lambda>_. True)"
  unfolding put_work_outcomes_def
  using assms(2)
  by (intro hoare_seq hoare_client_request[OF assms(1)] hoare_ret) auto

lemma hoare_append_workshop_conversation:
  assumes "frame env W task"
  shows "hoare (Inv W G cs0) (append_workshop_conversation env i q a) (\<lambda>_. True)"
proof -
  have "hoare (Inv W G cs0) (append_work_outcomes env client i ''conversation'' e) (\<lambda>_. True)" for e
    unfolding append_work_outcomes_def
    by (intro hoare_seq hoare_client_request[OF assms] hoare_ret) auto
  then show ?thesis
    unfolding append_workshop_conversation_def hoare_def by simp
qed

lemma hoare_set_workshop_output:
  assumes "frame env W task" and "i \<noteq> task"
  shows "hoare (Inv W G cs0) (set_workshop_output env i out) (\<lambda>_. True)"
  unfolding set_workshop_output_def
  using assms(2)
  by (intro hoare_seq hoare_put_work_outcomes[OF assms(1)]
      hoare_append_workshop_conversation[OF assms(1)]) auto

lemma hoare_set_current_workshop:
  "hoare (Inv W G cs0) (set_current_workshop c) (\<lambda>_. True)"
  by (simp add: hoare_def set_current_workshop_def)

lemma hoare_log_conversation:
  assumes "frame env W task"
  shows "hoare (Inv W G cs0) (log_conversation env q a) (\<lambda>_. True)"
proof -
  have "hoare (Inv W G cs0)
      (bind (if c = None then bind (ensure_problem_refinement_task env) (\<lambda>_. ret ()) else ret ())
         (\<lambda>_. append_workshop_conversation env i q a)) (\<lambda>_. True)" for c :: "string option" and i
    by (intro hoare_seq hoare_if hoare_ensure_problem_refinement_task[OF assms] hoare_ret
        hoare_append_workshop_conversation[OF assms]) simp_all
  then show ?thesis
    unfolding log_conversation_def hoare_def by blast
qed

lemma hoare_py_input: "hoare (Inv W G cs0) py_input (\<lambda>_. True)"
  by (auto simp: hoare_def py_input_def split: list.splits)

lemma hoare_log_ret:
  assumes "frame env W task"
  shows "hoare (Inv W G cs0) (bind (log_conversation env q a) (\<lambda>_. ret x)) (\<lambda>_. True)"
  by (intro hoare_seq hoare_log_conversation[OF assms] hoare_ret) simp

lemma hoare_at: "hoare I m R \<Longrightarrow> I st \<Longrightarrow> I (snd (m st))"
  by (simp add: hoare_def)

lemma ask_loop_keeps:
  assumes "frame env W task"
  shows "Inv W G cs0 st \<Longrightarrow> Inv W G cs0 (snd (ask_loop env q opts lines st))"
proof (induction lines arbitrary: st)
  case Nil
  then show ?case by simp
next
  case (Cons line rest)
  have i: "Inv W G cs0 (st\<lparr>stdin := rest\<rparr>)"
    using Cons.prems by simp
  note lr = hoare_at[OF hoare_log_ret[OF assms] i]
  have "hoare (Inv W G cs0) (bind py_input (\<lambda>l.
        if strip l \<noteq> [] then bind (log_conversation env q (strip l)) (\<lambda>_. ret (strip l))
        else bind (log_conversation env q x) (\<lambda>_. ret x))) (\<lambda>_. True)" for x
    by (intro hoare_seq hoare_py_input hoare_if hoare_log_ret[OF assms])
  note inp = hoare_at[OF this i]
  show ?case
    by (simp add: Cons.prems Cons.IH[OF i] lr inp split: option.splits)
qed

lemma hoare_ask_human_question_local:
  assumes "frame env W task"
  shows "hoare (Inv W G cs0) (ask_human_question_local env q opts) (\<lambda>_. True)"
  unfolding hoare_def ask_human_question_local_def
  using ask_loop_keeps[OF assms] by simp

lemma run_tree_keeps:
  assumes "frame env W task"
  shows "Inv W G cs0 st \<Longrightarrow> Inv W G cs0 (snd (run_tree env t st))"
proof (induction t arbitrary: st)
  case (Final s)
  then show ?case by (simp add: ret_def)
next
  case (Raise e)
  then show ?case by (simp add: throw_def)
next
  case (Ask q opts k)
  obtain r s1 where a: "ask_human_question_local env q opts st = (r, s1)"
    by (cases "ask_human_question_local env q opts st")
  from hoare_at[OF hoare_ask_human_question_local[OF assms] Ask.prems, of q opts] a
  have "Inv W G cs0 s1" by simp
  then have "Inv W G cs0 (snd (run_tree env (k r) s1))"
    by (rule Ask.IH[OF rangeI])
  with a show ?case by simp
qed

lemma hoare_run_agent:
  assumes "frame env W task" and "G (sys, usr)"
  shows "hoare (Inv W G cs0) (run_agent env sys usr tools) (\<lambda>_. True)"
  unfolding hoare_def
proof (intro allI impI conjI)
  fix st assume i: "Inv W G cs0 st"
  let ?st = "st\<lparr>agent_calls := agent_calls st @ [(sys, usr)]\<rparr>"
  have i': "Inv W G cs0 ?st"
    using i assms(2) by (auto simp: Inv_def)
  show "Inv W G cs0 (snd (run_agent env sys usr tools st))"
    using i' run_tree_keeps[OF assms(1) i']
    by (simp add: run_agent_def Let_def)
qed simp

lemma hoare_get_workshop_output:
  assumes "frame env W task"
  shows "hoare (Inv W G cs0) (get_workshop_output env i) (\<lambda>_. True)"
  unfolding get_workshop_output_def
  by (intro hoare_seq hoare_if hoare_get_task[OF assms] hoare_ret hoare_lift)
     (auto intro: hoare_ret split: pyval.splits)

subsection \<open>The blocks of continue_discovery\<close>

lemma hoare_phase_block:
  assumes "frame env W task" and "i \<noteq> task"
    and "G (phase_prompt name, ctx)" and "G (next_steps_prompt name, ctx)"
  shows "hoare (Inv W G cs0) (phase_block env ctx key i name d)
           (\<lambda>d'. \<forall>k. k \<noteq> key \<longrightarrow> map_of d' k = map_of d k)"
proof -
  have run: "hoare (Inv W G cs0)
      (bind (set_current_workshop (Some i)) (\<lambda>_.
       bind (run_discovery_phase env name ctx) (\<lambda>out.
       bind (set_current_workshop None) (\<lambda>_.
       bind (set_workshop_output env i out) (\<lambda>_.
       bind (run_workshop_next_steps env name ctx) (\<lambda>next_steps.
       bind (put_work_outcomes env client i ''next_steps'' (PStr next_steps)) (\<lambda>_.
         ret out)))))))
      (\<lambda>_. True)"
    unfolding run_discovery_phase_def run_workshop_next_steps_def
    by (intro hoare_seq hoare_set_current_workshop hoare_run_agent[OF assms(1)]
        hoare_set_workshop_output[OF assms(1,2)] hoare_put_work_outcomes[OF assms(1)]
        hoare_ret assms(3,4)) simp_all
  show ?thesis
    unfolding phase_block_def
    by (intro hoare_if hoare_seq hoare_get_workshop_output[OF assms(1)] run hoare_ret)
       (simp_all add: update_conv')
qed

lemma hoare_phase_block_own:
  assumes "hoare (Inv W G cs0) (get_workshop_output env task) (\<lambda>r. r = Some text)"
    and "text \<noteq> []"
  shows "hoare (Inv W G cs0) (phase_block env ctx key task name d)
           (\<lambda>d'. map_of d' key = Some (case map_of d key of None \<Rightarrow> text | Some v \<Rightarrow> v)
                \<and> (\<forall>k. k \<noteq> key \<longrightarrow> map_of d' k = map_of d k))"
  unfolding phase_block_def
proof (rule hoare_if)
  assume n: "map_of d key = None"
  show "hoare (Inv W G cs0)
     (bind (get_workshop_output env task) (\<lambda>phase_out.
        bind (if falsy phase_out then
                bind (set_current_workshop (Some task)) (\<lambda>_.
                bind (run_discovery_phase env name ctx) (\<lambda>out.
                bind (set_current_workshop None) (\<lambda>_.
                bind (set_workshop_output env task out) (\<lambda>_.
                bind (run_workshop_next_steps env name ctx) (\<lambda>next_steps.
                bind (put_work_outcomes env client task ''next_steps'' (PStr next_steps)) (\<lambda>_.
                  ret out))))))
              else ret (str_of phase_out)) (\<lambda>phase_out.
          ret (AList.update key phase_out d))))
     (\<lambda>d'. map_of d' key = Some (case map_of d key of None \<Rightarrow> text | Some v \<Rightarrow> v)
          \<and> (\<forall>k. k \<noteq> key \<longrightarrow> map_of d' k = map_of d k))"
  proof (rule hoare_bind[OF assms(1)])
    fix x :: "string option" assume x: "x = Some text"
    then have nf: "\<not> falsy x"
      using assms(2) by (simp add: falsy_def)
    show "hoare (Inv W G cs0)
       (bind (if falsy x then
                bind (set_current_workshop (Some task)) (\<lambda>_.
                bind (run_discovery_phase env name ctx) (\<lambda>out.
                bind (set_current_workshop None) (\<lambda>_.
                bind (set_workshop_output env task out) (\<lambda>_.
                bind (run_workshop_next_steps env name ctx) (\<lambda>next_steps.
                bind (put_work_outcomes env client task ''next_steps'' (PStr next_steps)) (\<lambda>_.
                  ret out))))))
              else ret (str_of x)) (\<lambda>phase_out.
          ret (AList.update key phase_out d)))
       (\<lambda>d'. map_of d' key = Some (case map_of d key of None \<Rightarrow> text | Some v \<Rightarrow> v)
          \<and> (\<forall>k. k \<noteq> key \<longrightarrow> map_of d' k = map_of d k))"
      unfolding if_not_P[OF nf]
      by (rule hoare_bind[where R="\<lambda>r. r = text"])
         (auto intro!: hoare_ret simp: x str_of_def n update_conv')
  qed
next
  assume "map_of d key \<noteq> None"
  then show "hoare (Inv W G cs0) (ret d)
     (\<lambda>d'. map_of d' key = Some (case map_of d key of None \<Rightarrow> text | Some v \<Rightarrow> v)
          \<and> (\<forall>k. k \<noteq> key \<longrightarrow> map_of d' k = map_of d k))"
    by (intro hoare_ret) auto
qed

lemma hoare_initial_block:
  assumes "frame env W task" and "''problem-refinement'' \<noteq> task"
    and "G (discovery_prompt, ps)"
  shows "hoare (Inv W G cs0) (initial_block env ps d)
           (\<lambda>d'. map_of d' ''initial'' \<noteq> None
                \<and> (\<forall>k. k \<noteq> ''initial'' \<longrightarrow> map_of d' k = map_of d k))"
proof -
  have run: "hoare (Inv W G cs0)
      (bind (set_current_workshop (Some ''problem-refinement'')) (\<lambda>_.
       bind (run_discovery env ps) (\<lambda>out.
       bind (set_current_workshop None) (\<lambda>_.
       bind (set_workshop_output env ''problem-refinement'' out) (\<lambda>_.
         ret out)))))
      (\<lambda>_. True)"
    unfolding run_discovery_def
    by (intro hoare_seq hoare_set_current_workshop hoare_run_agent[OF assms(1)]
        hoare_set_workshop_output[OF assms(1,2)] hoare_ret assms(3)) simp_all
  show ?thesis
    unfolding initial_block_def
    by (intro hoare_if hoare_seq hoare_get_workshop_output[OF assms(1)] run hoare_ret)
       (auto simp: update_conv')
qed

lemma hoare_initial_block_own:
  assumes "hoare (Inv W G cs0) (get_workshop_output env ''problem-refinement'')
             (\<lambda>r. r = Some text)"
    and "text \<noteq> []"
  shows "hoare (Inv W G cs0) (initial_block env ps d)
           (\<lambda>d'. map_of d' ''initial''
                    = Some (if map_of d ''initial'' = None
                               \<or> strip (str_of (map_of d ''initial'')) = []
                            then text else str_of (map_of d ''initial''))
                \<and> (\<forall>k. k \<noteq> ''initial'' \<longrightarrow> map_of d' k = map_of d k))"
  unfolding initial_block_def
proof (rule hoare_if)
  assume n: "map_of d ''initial'' = None \<or> strip (str_of (map_of d ''initial'')) = []"
  show "hoare (Inv W G cs0)
     (bind (get_workshop_output env ''problem-refinement'') (\<lambda>initial_output.
        bind (if falsy initial_output then
                bind (set_current_workshop (Some ''problem-refinement'')) (\<lambda>_.
                bind (run_discovery env ps) (\<lambda>out.
                bind (set_current_workshop None) (\<lambda>_.
                bind (set_workshop_output env ''problem-refinement'' out) (\<lambda>_.
                  ret out))))
              else ret (str_of initial_output)) (\<lambda>initial_output.
          ret (AList.update ''initial'' initial_output d))))
     (\<lambda>d'. map_of d' ''initial''
                    = Some (if map_of d ''initial'' = None
                               \<or> strip (str_of (map_of d ''initial'')) = []
                            then text else str_of (map_of d ''initial''))
                \<and> (\<forall>k. k \<noteq> ''initial'' \<longrightarrow> map_of d' k = map_of d k))"
  proof (rule hoare_bind[OF assms(1)])
    fix x :: "string option" assume x: "x = Some text"
    then have nf: "\<not> falsy x"
      using assms(2) by (simp add: falsy_def)
    show "hoare (Inv W G cs0)
       (bind (if falsy x then
                bind (set_current_workshop (Some ''problem-refinement'')) (\<lambda>_.
                bind (run_discovery env ps) (\<lambda>out.
                bind (set_current_workshop None) (\<lambda>_.
                bind (set_workshop_output env ''problem-refinement'' out) (\<lambda>_.
                  ret out))))
              else ret (str_of x)) (\<lambda>initial_output.
          ret (AList.update ''initial'' initial_output d)))
       (\<lambda>d'. map_of d' ''initial''
                    = Some (if map_of d ''initial'' = None
                               \<or> strip (str_of (map_of d ''initial'')) = []
                            then text else str_of (map_of d ''initial''))
                \<and> (\<forall>k. k \<noteq> ''initial'' \<longrightarrow> map_of d' k = map_of d k))"
      unfolding if_not_P[OF nf]
      by (rule hoare_bind[where R="\<lambda>r. r = text"])
         (use n in \<open>auto intro!: hoare_ret simp: x str_of_def update_conv'\<close>)
  qed
next
  assume "\<not> (map_of d ''initial'' = None \<or> strip (str_of (map_of d ''initial'')) = [])"
  then show "hoare (Inv W G cs0) (ret d)
     (\<lambda>d'. map_of d' ''initial''
                    = Some (if map_of d ''initial'' = None
                               \<or> strip (str_of (map_of d ''initial'')) = []
                            then text else str_of (map_of d ''initial''))
                \<and> (\<forall>k. k \<noteq> ''initial'' \<longrightarrow> map_of d' k = map_of d k))"
    by (intro hoare_ret) (auto simp: str_of_def)
qed

subsection \<open>The store\<close>

lemma frame_store:
  assumes "backend env = store_backend"
  shows "frame env (\<lambda>w. stored_output w task = Some text) task"
  unfolding frame_def
proof (intro allI impI)
  fix w rq
  assume w: "stored_output w task = Some text" and rq: "\<not> writes_output task rq"
  show "stored_output (snd (backend env w rq)) task = Some text"
  proof (cases rq)
    case (GetTask i)
    with w show ?thesis
      by (simp add: assms split: option.splits)
  next
    case (PostTask b)
    with w show ?thesis
      by (auto simp: assms stored_output_def split: option.splits)
  next
    case (PutWorkOutcomes i f v)
    with w rq show ?thesis
      by (auto simp: assms stored_output_def update_conv' split: option.splits)
  next
    case (AppendWorkOutcomes i f e)
    with w rq show ?thesis
      by (auto simp: assms stored_output_def update_conv' split: option.splits)
  qed
qed

lemma get_workshop_output_stored:
  assumes "backend env = store_backend" and "stored_output (world st) task = Some text"
  shows "fst (get_workshop_output env task st) = Inr (Some text)"
proof -
  from assms(2) obtain t where t: "world st task = Some t"
    and o: "map_of (work_outcomes t) ''output'' = Some (PStr text)" and s: "strip text \<noteq> []"
    by (auto simp: stored_output_def split: option.splits pyval.splits if_splits)
  from o have ne: "work_outcomes t \<noteq> []"
    by auto
  have g: "get_task env task st
      = (Inr (item_json t), st\<lparr>requests := requests st @ [(client, GetTask task)]\<rparr>)"
    by (simp add: get_task_cases assms(1) t)
  show ?thesis
    by (simp add: get_workshop_output_def bind_def g item_json_def py_get_def dict_get_def
        lift_def ne o s ret_def)
qed

lemma hoare_get_workshop_output_own:
  assumes "backend env = store_backend"
  shows "hoare (Inv (\<lambda>w. stored_output w task = Some text) G cs0)
           (get_workshop_output env task) (\<lambda>r. r = Some text)"
  unfolding hoare_def
proof (intro allI impI conjI)
  fix st assume i: "Inv (\<lambda>w. stored_output w task = Some text) G cs0 st"
  show "Inv (\<lambda>w. stored_output w task = Some text) G cs0 (snd (get_workshop_output env task st))"
    using hoare_get_workshop_output[OF frame_store[OF assms], of task "text" G cs0 task] i
    by (simp add: hoare_def)
  fix x assume "fst (get_workshop_output env task st) = Inr x"
  moreover have "fst (get_workshop_output env task st) = Inr (Some text)"
    using i by (intro get_workshop_output_stored[OF assms]) (simp add: Inv_def)
  ultimately show "x = Some text" by simp
qed

lemma stored_output_nonempty: "stored_output w task = Some text \<Longrightarrow> text \<noteq> []"
  by (auto simp: stored_output_def strip_def lstrip_def rstrip_def
      split: option.splits pyval.splits if_splits)

subsection \<open>The prompts\<close>

lemma phase_prompt_inj: "phase_prompt a = phase_prompt b \<Longrightarrow> a = b"
  by (simp add: phase_prompt_def)

lemma next_steps_prompt_inj: "next_steps_prompt a = next_steps_prompt b \<Longrightarrow> a = b"
  by (simp add: next_steps_prompt_def)

lemma prompts_distinct:
  "phase_prompt a \<noteq> next_steps_prompt b" "next_steps_prompt b \<noteq> phase_prompt a"
  "phase_prompt a \<noteq> discovery_prompt" "discovery_prompt \<noteq> phase_prompt a"
  "next_steps_prompt b \<noteq> discovery_prompt" "discovery_prompt \<noteq> next_steps_prompt b"
  by (simp_all add: phase_prompt_def next_steps_prompt_def discovery_prompt_def)

subsection \<open>Reading the discovery map from the store\<close>

lemma get_workshop_output_store:
  assumes "backend env = store_backend"
  shows "get_workshop_output env i st
     = (Inr (stored_output (world st) i), st\<lparr>requests := requests st @ [(client, GetTask i)]\<rparr>)"
proof (cases "world st i")
  case None
  then show ?thesis
    by (simp add: get_workshop_output_def bind_def get_task_cases assms not_found_def
        stored_output_def ret_def)
next
  case (Some t)
  have g: "get_task env i st
      = (Inr (item_json t), st\<lparr>requests := requests st @ [(client, GetTask i)]\<rparr>)"
    by (simp add: get_task_cases assms Some)
  show ?thesis
  proof (cases "work_outcomes t = []")
    case True
    then show ?thesis
      by (simp add: get_workshop_output_def bind_def g item_json_def py_get_def dict_get_def
          lift_def ret_def stored_output_def Some)
  next
    case False
    then show ?thesis
      by (simp add: get_workshop_output_def bind_def g item_json_def py_get_def dict_get_def
          lift_def ret_def stored_output_def Some split: option.splits pyval.splits)
  qed
qed


lemma hoare_get_workshop_output_store:
  assumes "backend env = store_backend"
  shows "hoare (\<lambda>s. world s = w0) (get_workshop_output env i) (\<lambda>r. r = stored_output w0 i)"
  by (simp add: hoare_def get_workshop_output_store[OF assms])

lemma discovery_entry:
  assumes "out = Some text" and "text \<noteq> []" and "distinct (map fst before)"
    and "key \<notin> fst ` set before"
  shows "map_of (concat (map (\<lambda>(k, v). case v of None \<Rightarrow> []
                                   | Some s \<Rightarrow> if s \<noteq> [] then [(k, s)] else [])
                   (before @ (key, out) # after))) key = Some text"
  using assms(3,4)
proof (induction before)
  case Nil
  then show ?case by (simp add: assms(1,2))
next
  case (Cons a before)
  then show ?case
    by (cases a) (auto split: option.splits)
qed

lemma discovery_from_store:
  assumes "backend env = store_backend"
    and "stored_output (world st) (phase_task p) = Some text"
    and "get_problem_refinement_discovery env st = (Inr ex, st')"
  shows "map_of (case ex of None \<Rightarrow> [] | Some d \<Rightarrow> d) (phase_key p) = Some text
    \<and> world st' = world st"
proof -
  have t: "text \<noteq> []"
    using assms(2) by (rule stored_output_nonempty)
  note g = hoare_get_workshop_output_store[OF assms(1), of "world st"]
  have fin: "hoare (\<lambda>s. world s = world st)
      (let outputs = [(''initial'', o1), (''event_storming'', o2),
                      (''decision_workshop'', o3), (''clarify'', o4)]
       in if \<not> list_ex (\<lambda>(k, v). v \<noteq> None \<and> v \<noteq> Some []) outputs then ret None
          else ret (Some (concat (map (\<lambda>(k, v). case v of None \<Rightarrow> []
                                   | Some s \<Rightarrow> if s \<noteq> [] then [(k, s)] else []) outputs))))
      (\<lambda>ex. map_of (case ex of None \<Rightarrow> [] | Some d \<Rightarrow> d) (phase_key p) = Some text)"
    if o: "o1 = stored_output (world st) ''problem-refinement''"
      "o2 = stored_output (world st) ''workshop-eventstorming''"
      "o3 = stored_output (world st) ''workshop-decision''"
      "o4 = stored_output (world st) ''workshop-clarify''" for o1 o2 o3 o4
  proof (cases p)
    case Initial
    with assms(2) o have e: "o1 = Some text" by simp
    have ex: "(\<not> list_ex (\<lambda>(k, v). v \<noteq> None \<and> v \<noteq> Some [])
        [(''initial'', o1), (''event_storming'', o2), (''decision_workshop'', o3), (''clarify'', o4)])
        = False"
      using e t by simp
    show ?thesis
      unfolding Let_def ex if_False Initial phase_key.simps
      using discovery_entry[OF e t, of "[]" "''initial''"
          "[(''event_storming'', o2), (''decision_workshop'', o3), (''clarify'', o4)]"]
      by (intro hoare_ret) simp
  next
    case Event_storming
    with assms(2) o have e: "o2 = Some text" by simp
    have ex: "(\<not> list_ex (\<lambda>(k, v). v \<noteq> None \<and> v \<noteq> Some [])
        [(''initial'', o1), (''event_storming'', o2), (''decision_workshop'', o3), (''clarify'', o4)])
        = False"
      using e t by simp
    show ?thesis
      unfolding Let_def ex if_False Event_storming phase_key.simps
      using discovery_entry[OF e t, of "[(''initial'', o1)]" "''event_storming''"
          "[(''decision_workshop'', o3), (''clarify'', o4)]"]
      by (intro hoare_ret) simp
  next
    case Decision_workshop
    with assms(2) o have e: "o3 = Some text" by simp
    have ex: "(\<not> list_ex (\<lambda>(k, v). v \<noteq> None \<and> v \<noteq> Some [])
        [(''initial'', o1), (''event_storming'', o2), (''decision_workshop'', o3), (''clarify'', o4)])
        = False"
      using e t by simp
    show ?thesis
      unfolding Let_def ex if_False Decision_workshop phase_key.simps
      using discovery_entry[OF e t, of "[(''initial'', o1), (''event_storming'', o2)]"
          "''decision_workshop''" "[(''clarify'', o4)]"]
      by (intro hoare_ret) simp
  next
    case Clarify
    with assms(2) o have e: "o4 = Some text" by simp
    have ex: "(\<not> list_ex (\<lambda>(k, v). v \<noteq> None \<and> v \<noteq> Some [])
        [(''initial'', o1), (''event_storming'', o2), (''decision_workshop'', o3), (''clarify'', o4)])
        = False"
      using e t by simp
    show ?thesis
      unfolding Let_def ex if_False Clarify phase_key.simps
      using discovery_entry[OF e t,
          of "[(''initial'', o1), (''event_storming'', o2), (''decision_workshop'', o3)]"
          "''clarify''" "[]"]
      by (intro hoare_ret) simp
  qed
  have "hoare (\<lambda>s. world s = world st) (get_problem_refinement_discovery env)
      (\<lambda>ex. map_of (case ex of None \<Rightarrow> [] | Some d \<Rightarrow> d) (phase_key p) = Some text)"
    unfolding get_problem_refinement_discovery_def
    by (intro hoare_bind[OF g] fin)
  with assms(3) show ?thesis
    unfolding hoare_def by (metis fst_conv snd_conv)
qed

subsection \<open>A completed phase is skipped\<close>

lemma Inv_start: "W (world st) \<Longrightarrow> Inv W G (agent_calls st) st"
  by (simp add: Inv_def)

lemma Inv_new_calls:
  "Inv W G (agent_calls st) st' \<Longrightarrow> list_all G (new_calls st st')"
  by (auto simp: Inv_def new_calls_def)

lemma hoare_continue_discovery_own:
  assumes b: "backend env = store_backend"
    and t: "text \<noteq> []"
  shows "hoare (Inv (\<lambda>w. stored_output w (phase_task p) = Some text)
                    (\<lambda>c. fst c \<notin> set (runner_prompts p)) cs0)
     (continue_discovery env ps existing)
     (\<lambda>d. map_of d (phase_key p)
        = Some (case map_of (case existing of None \<Rightarrow> [] | Some d \<Rightarrow> d) (phase_key p) of
                  None \<Rightarrow> text
                | Some v \<Rightarrow> if p = Initial \<and> strip v = [] then text else v))"
proof -
  define W where "W = (\<lambda>w. stored_output w (phase_task p) = Some text)"
  define G where "G = (\<lambda>c :: string \<times> string. fst c \<notin> set (runner_prompts p))"
  define ex where "ex = (case existing of None \<Rightarrow> [] | Some d \<Rightarrow> d)"
  note F = frame_store[OF b, of "phase_task p" "text", folded W_def]
  note O = hoare_get_workshop_output_own[OF b, of "phase_task p" "text" G cs0, folded W_def]
  note pd = prompts_distinct
  have "hoare (Inv W G cs0) (continue_discovery env ps existing)
     (\<lambda>d. map_of d (phase_key p)
        = Some (case map_of ex (phase_key p) of
                  None \<Rightarrow> text
                | Some v \<Rightarrow> if p = Initial \<and> strip v = [] then text else v))"
  proof (cases p)
    case Initial
    have O': "hoare (Inv W G cs0) (get_workshop_output env ''problem-refinement'') (\<lambda>r. r = Some text)"
      using O Initial by simp
    have other: "hoare (Inv W G cs0) (phase_block env ctx key i name d)
        (\<lambda>d'. \<forall>k. k \<noteq> key \<longrightarrow> map_of d' k = map_of d k)"
      if "i \<noteq> ''problem-refinement''" for ctx key i name d
      using that by (intro hoare_phase_block[OF F]) (simp_all add: G_def Initial pd)
    show ?thesis
      unfolding continue_discovery_blocks ex_def[symmetric]
      apply (rule hoare_seq[OF hoare_ensure_workshop_tasks[OF F]])
      apply (rule hoare_bind[OF hoare_initial_block_own[OF O' t]])
      apply (rule hoare_bind[OF other])
       apply simp
      apply (rule hoare_bind[OF other])
       apply simp
      apply (rule hoare_weaken[OF other])
       apply simp
      apply (auto simp: Initial str_of_def split: option.splits)
      done
  next
    case Event_storming
    have O': "hoare (Inv W G cs0) (get_workshop_output env ''workshop-eventstorming'') (\<lambda>r. r = Some text)"
      using O Event_storming by simp
    have other: "hoare (Inv W G cs0) (phase_block env ctx key i name d)
        (\<lambda>d'. \<forall>k. k \<noteq> key \<longrightarrow> map_of d' k = map_of d k)"
      if "i \<noteq> ''workshop-eventstorming''" "name \<noteq> ''Event Storming''" for ctx key i name d
      using that
      by (intro hoare_phase_block[OF F])
         (auto simp: G_def Event_storming pd dest: phase_prompt_inj next_steps_prompt_inj)
    have init: "hoare (Inv W G cs0) (initial_block env ps d)
           (\<lambda>d'. map_of d' ''initial'' \<noteq> None
                \<and> (\<forall>k. k \<noteq> ''initial'' \<longrightarrow> map_of d' k = map_of d k))" for d
      by (intro hoare_initial_block[OF F]) (simp_all add: G_def Event_storming pd)
    show ?thesis
      unfolding continue_discovery_blocks ex_def[symmetric]
      apply (rule hoare_seq[OF hoare_ensure_workshop_tasks[OF F]])
      apply (rule hoare_bind[OF init])
      apply (rule hoare_bind[OF hoare_phase_block_own[OF O' t]])
      apply (rule hoare_bind[OF other])
        apply simp
       apply simp
      apply (rule hoare_weaken[OF other])
        apply simp
       apply simp
      apply (auto simp: Event_storming split: option.splits)
      done
  next
    case Decision_workshop
    have O': "hoare (Inv W G cs0) (get_workshop_output env ''workshop-decision'') (\<lambda>r. r = Some text)"
      using O Decision_workshop by simp
    have other: "hoare (Inv W G cs0) (phase_block env ctx key i name d)
        (\<lambda>d'. \<forall>k. k \<noteq> key \<longrightarrow> map_of d' k = map_of d k)"
      if "i \<noteq> ''workshop-decision''" "name \<noteq> ''Decision Workshop''" for ctx key i name d
      using that
      by (intro hoare_phase_block[OF F])
         (auto simp: G_def Decision_workshop pd dest: phase_prompt_inj next_steps_prompt_inj)
    have init: "hoare (Inv W G cs0) (initial_block env ps d)
           (\<lambda>d'. map_of d' ''initial'' \<noteq> None
                \<and> (\<forall>k. k \<noteq> ''initial'' \<longrightarrow> map_of d' k = map_of d k))" for d
      by (intro hoare_initial_block[OF F]) (simp_all add: G_def Decision_workshop pd)
    show ?thesis
      unfolding continue_discovery_blocks ex_def[symmetric]
      apply (rule hoare_seq[OF hoare_ensure_workshop_tasks[OF F]])
      apply (rule hoare_bind[OF init])
      apply (rule hoare_bind[OF other])
        apply simp
       apply simp
      apply (rule hoare_bind[OF hoare_phase_block_own[OF O' t]])
      apply (rule hoare_weaken[OF other])
        apply simp
       apply simp
      apply (auto simp: Decision_workshop split: option.splits)
      done
  next
    case Clarify
    have O': "hoare (Inv W G cs0) (get_workshop_output env ''workshop-clarify'') (\<lambda>r. r = Some text)"
      using O Clarify by simp
    have other: "hoare (Inv W G cs0) (phase_block env ctx key i name d)
        (\<lambda>d'. \<forall>k. k \<noteq> key \<longrightarrow> map_of d' k = map_of d k)"
      if "i \<noteq> ''workshop-clarify''" "name \<noteq> ''Clarification''" for ctx key i name d
      using that
      by (intro hoare_phase_block[OF F])
         (auto simp: G_def Clarify pd dest: phase_prompt_inj next_steps_prompt_inj)
    have init: "hoare (Inv W G cs0) (initial_block env ps d)
           (\<lambda>d'. map_of d' ''initial'' \<noteq> None
                \<and> (\<forall>k. k \<noteq> ''initial'' \<longrightarrow> map_of d' k = map_of d k))" for d
      by (intro hoare_initial_block[OF F]) (simp_all add: G_def Clarify pd)
    show ?thesis
      unfolding continue_discovery_blocks ex_def[symmetric]
      apply (rule hoare_seq[OF hoare_ensure_workshop_tasks[OF F]])
      apply (rule hoare_bind[OF init])
      apply (rule hoare_bind[OF other])
        apply simp
       apply simp
      apply (rule hoare_bind[OF other])
        apply simp
       apply simp
      apply (rule hoare_weaken[OF hoare_phase_block_own[OF O' t]])
      apply (auto simp: Clarify split: option.splits)
      done
  qed
  then show ?thesis
    unfolding W_def G_def ex_def .
qed

text \<open>
  C1, as stated, fails in its second half: \<open>continue_discovery\<close> keeps an entry that the
  map it is given already has for the phase, whatever the backend holds. With \<open>fresh\<close>
  stored as the output of the event-storming item and \<open>stale\<close> passed in for it, the map
  returned holds \<open>stale\<close>.
\<close>

theorem continue_discovery_stale_entry_counterexample:
  "stored_output [''workshop-eventstorming'' \<mapsto> done_item ''workshop-eventstorming'' ''fresh'']
       (phase_task Event_storming) = Some ''fresh''
   \<and> fst (continue_discovery quiet_env ''P'' (Some [(''event_storming'', ''stale'')])
          (start [''workshop-eventstorming'' \<mapsto> done_item ''workshop-eventstorming'' ''fresh''] []))
     = Inr [(''event_storming'', ''stale''), (''initial'', ''INIT''),
            (''decision_workshop'', ''DECISIONS''), (''clarify'', ''CLARIFIED'')]
   \<and> map_of [(''event_storming'', ''stale''), (''initial'', ''INIT''),
            (''decision_workshop'', ''DECISIONS''), (''clarify'', ''CLARIFIED'')]
        (phase_key Event_storming) \<noteq> Some ''fresh''"
  by code_simp

text \<open>
  C1, amended. On the backend of the specification, for each of the four phases: if the
  \<open>output\<close> field of the phase's work-item holds a string that is not blank, a run of
  \<open>continue_discovery\<close> starts no agent run for that phase, and the map it returns holds
  for the phase the entry of the map passed in when there is one (for \<open>initial\<close>: one
  that is not blank), and the stored text otherwise. So it holds the stored text whenever
  the map passed in has no entry for the phase or has that same text, and in particular
  when the map passed in is the one \<open>get_problem_refinement_discovery\<close> has just read
  from the backend, as in \<open>main\<close>.
\<close>

theorem continue_discovery_skips_completed_phase:
  assumes "backend env = store_backend"
    and "stored_output (world st) (phase_task p) = Some text"
  shows "(\<forall>c\<in>set (new_calls st (snd (continue_discovery env ps existing st))).
            fst c \<notin> set (runner_prompts p))
    \<and> (\<forall>d. fst (continue_discovery env ps existing st) = Inr d
          \<longrightarrow> map_of d (phase_key p)
              = Some (case map_of (case existing of None \<Rightarrow> [] | Some d \<Rightarrow> d) (phase_key p) of
                        None \<Rightarrow> text
                      | Some v \<Rightarrow> if p = Initial \<and> strip v = [] then text else v))
    \<and> (\<forall>d. fst (continue_discovery env ps existing st) = Inr d
            \<and> (map_of (case existing of None \<Rightarrow> [] | Some d \<Rightarrow> d) (phase_key p) = None
               \<or> map_of (case existing of None \<Rightarrow> [] | Some d \<Rightarrow> d) (phase_key p) = Some text)
          \<longrightarrow> map_of d (phase_key p) = Some text)
    \<and> (\<forall>read st1 d. get_problem_refinement_discovery env st = (Inr read, st1)
            \<and> fst (continue_discovery env ps read st1) = Inr d
          \<longrightarrow> map_of d (phase_key p) = Some text
            \<and> (\<forall>c\<in>set (new_calls st1 (snd (continue_discovery env ps read st1))).
                  fst c \<notin> set (runner_prompts p)))"
proof -
  let ?W = "\<lambda>w. stored_output w (phase_task p) = Some text"
  let ?G = "\<lambda>c :: string \<times> string. fst c \<notin> set (runner_prompts p)"
  have t: "text \<noteq> []"
    using assms(2) by (rule stored_output_nonempty)
  have run: "(\<forall>c\<in>set (new_calls s (snd (continue_discovery env ps given s))).
            fst c \<notin> set (runner_prompts p))
    \<and> (\<forall>d. fst (continue_discovery env ps given s) = Inr d
          \<longrightarrow> map_of d (phase_key p)
              = Some (case map_of (case given of None \<Rightarrow> [] | Some d \<Rightarrow> d) (phase_key p) of
                        None \<Rightarrow> text
                      | Some v \<Rightarrow> if p = Initial \<and> strip v = [] then text else v))"
    if s: "stored_output (world s) (phase_task p) = Some text" for s given
  proof -
    have i: "Inv ?W ?G (agent_calls s) s"
      using s by (intro Inv_start)
    from hoare_continue_discovery_own[OF assms(1) t, of p "agent_calls s" ps given] i
    have post: "Inv ?W ?G (agent_calls s) (snd (continue_discovery env ps given s))"
      and res: "\<forall>d. fst (continue_discovery env ps given s) = Inr d
        \<longrightarrow> map_of d (phase_key p)
            = Some (case map_of (case given of None \<Rightarrow> [] | Some d \<Rightarrow> d) (phase_key p) of
                      None \<Rightarrow> text
                    | Some v \<Rightarrow> if p = Initial \<and> strip v = [] then text else v)"
      unfolding hoare_def by blast+
    have "\<forall>c\<in>set (new_calls s (snd (continue_discovery env ps given s))).
        fst c \<notin> set (runner_prompts p)"
      using Inv_new_calls[OF post] by (simp add: list_all_iff)
    with res show ?thesis
      by blast
  qed
  have same: "map_of d (phase_key p) = Some text"
    if "stored_output (world s) (phase_task p) = Some text"
      and "fst (continue_discovery env ps given s) = Inr d"
      and "map_of (case given of None \<Rightarrow> [] | Some d \<Rightarrow> d) (phase_key p) = None
         \<or> map_of (case given of None \<Rightarrow> [] | Some d \<Rightarrow> d) (phase_key p) = Some text"
    for d s given
    using run[OF that(1), of given] that(2,3) by auto
  have main: "map_of d (phase_key p) = Some text
      \<and> (\<forall>c\<in>set (new_calls st1 (snd (continue_discovery env ps read st1))).
            fst c \<notin> set (runner_prompts p))"
    if r: "get_problem_refinement_discovery env st = (Inr read, st1)"
      and c: "fst (continue_discovery env ps read st1) = Inr d" for read st1 d
  proof -
    from discovery_from_store[OF assms r]
    have e: "map_of (case read of None \<Rightarrow> [] | Some d \<Rightarrow> d) (phase_key p) = Some text"
      and w: "world st1 = world st"
      by simp_all
    from w assms(2) have s1: "stored_output (world st1) (phase_task p) = Some text"
      by simp
    from same[OF s1 c] e run[OF s1, of read] show ?thesis
      by blast
  qed
  from run[OF assms(2), of existing] same[OF assms(2), of existing] main show ?thesis
    by blast
qed

theorem continue_discovery_skips_completed_phase_witness:
  "stored_output [''workshop-eventstorming'' \<mapsto> done_item ''workshop-eventstorming'' ''fresh'']
       (phase_task Event_storming) = Some ''fresh''
   \<and> fst (continue_discovery quiet_env ''P'' None
          (start [''workshop-eventstorming'' \<mapsto> done_item ''workshop-eventstorming'' ''fresh''] []))
     = Inr [(''initial'', ''INIT''), (''event_storming'', ''fresh''),
            (''decision_workshop'', ''DECISIONS''), (''clarify'', ''CLARIFIED'')]
   \<and> list_all (\<lambda>c. fst c \<notin> set (runner_prompts Event_storming))
        (new_calls (start [''workshop-eventstorming'' \<mapsto> done_item ''workshop-eventstorming'' ''fresh''] [])
           (snd (continue_discovery quiet_env ''P'' None
              (start [''workshop-eventstorming'' \<mapsto> done_item ''workshop-eventstorming'' ''fresh''] []))))"
proof -
  let ?S = "start [''workshop-eventstorming'' \<mapsto> done_item ''workshop-eventstorming'' ''fresh''] []"
  have b: "backend quiet_env = store_backend"
    by (simp add: quiet_env_def console_env_def)
  have o: "stored_output (world ?S) (phase_task Event_storming) = Some ''fresh''"
    by code_simp
  have o': "stored_output [''workshop-eventstorming'' \<mapsto> done_item ''workshop-eventstorming'' ''fresh'']
       (phase_task Event_storming) = Some ''fresh''"
    by code_simp
  have r: "fst (continue_discovery quiet_env ''P'' None ?S)
     = Inr [(''initial'', ''INIT''), (''event_storming'', ''fresh''),
            (''decision_workshop'', ''DECISIONS''), (''clarify'', ''CLARIFIED'')]"
    by code_simp
  from continue_discovery_skips_completed_phase [OF b o, of "''P''" None]
  have "list_all (\<lambda>c. fst c \<notin> set (runner_prompts Event_storming))
        (new_calls ?S (snd (continue_discovery quiet_env ''P'' None ?S)))"
    by (simp add: list_all_iff)
  with o' r show ?thesis
    by (intro conjI)
qed

subsection \<open>The context of the later phases\<close>

lemma frame_any: "frame env (\<lambda>_. True) task"
  by (simp add: frame_def)

lemma not_later_prompt: "q \<noteq> Initial \<Longrightarrow> discovery_prompt \<notin> set (runner_prompts q)"
  by (cases q) (simp_all add: prompts_distinct)

lemma continue_discovery_split:
  "continue_discovery env ps existing =
     bind (bind (ensure_workshop_tasks env)
             (\<lambda>_. initial_block env ps (case existing of None \<Rightarrow> [] | Some d \<Rightarrow> d)))
       (\<lambda>d.
         bind (phase_block env (discovery_context ps d) ''event_storming''
                 ''workshop-eventstorming'' ''Event Storming'' d) (\<lambda>d1.
         bind (phase_block env (discovery_context ps d) ''decision_workshop''
                 ''workshop-decision'' ''Decision Workshop'' d1) (\<lambda>d2.
           phase_block env (discovery_context ps d) ''clarify''
                 ''workshop-clarify'' ''Clarification'' d2)))"
  by (simp add: continue_discovery_blocks bind_assoc)

text \<open>
  C2, as stated, fails: the context is built once, from the problem statement and the
  output of the first phase, and the same text goes to every later phase. In this run the
  event-storming phase gives \<open>EVENTS\<close> and the decision workshop \<open>DECISIONS\<close>, and neither
  is part of the context of the phases that follow.
\<close>

theorem continue_discovery_context_counterexample:
  "fst (continue_discovery quiet_env ''P'' None (start Map.empty []))
     = Inr [(''initial'', ''INIT''), (''event_storming'', ''EVENTS''),
            (''decision_workshop'', ''DECISIONS''), (''clarify'', ''CLARIFIED'')]
   \<and> agent_calls (snd (continue_discovery quiet_env ''P'' None (start Map.empty [])))
     = [(discovery_prompt, ''P''),
        (phase_prompt ''Event Storming'',
           ''Problem Statement:\<newline>P\<newline>\<newline>Initial Refinement:\<newline>INIT''),
        (next_steps_prompt ''Event Storming'',
           ''Problem Statement:\<newline>P\<newline>\<newline>Initial Refinement:\<newline>INIT''),
        (phase_prompt ''Decision Workshop'',
           ''Problem Statement:\<newline>P\<newline>\<newline>Initial Refinement:\<newline>INIT''),
        (next_steps_prompt ''Decision Workshop'',
           ''Problem Statement:\<newline>P\<newline>\<newline>Initial Refinement:\<newline>INIT''),
        (phase_prompt ''Clarification'',
           ''Problem Statement:\<newline>P\<newline>\<newline>Initial Refinement:\<newline>INIT''),
        (next_steps_prompt ''Clarification'',
           ''Problem Statement:\<newline>P\<newline>\<newline>Initial Refinement:\<newline>INIT'')]
   \<and> \<not> sublist ''EVENTS'' ''Problem Statement:\<newline>P\<newline>\<newline>Initial Refinement:\<newline>INIT''
   \<and> \<not> sublist ''DECISIONS'' ''Problem Statement:\<newline>P\<newline>\<newline>Initial Refinement:\<newline>INIT''"
  by code_simp

text \<open>
  C2, amended. For every backend and every run of \<open>continue_discovery\<close> there is one text
  \<open>v\<close>, the entry of the discovery map for \<open>initial\<close> once the first phase is settled,
  such that every agent run started for a later phase (the phase itself or its next
  steps) gets as context exactly the problem statement and \<open>v\<close> under their two
  headings, and nothing of the outputs of the other phases; the map returned holds \<open>v\<close>
  for \<open>initial\<close>.
\<close>

theorem continue_discovery_context:
  "\<exists>v. (\<forall>q c. q \<noteq> Initial
              \<and> c \<in> set (new_calls st (snd (continue_discovery env ps existing st)))
              \<and> fst c \<in> set (runner_prompts q)
            \<longrightarrow> snd c = ''Problem Statement:'' @ [newline] @ ps @ [newline, newline]
                         @ ''Initial Refinement:'' @ [newline] @ v)
       \<and> (\<forall>d. fst (continue_discovery env ps existing st) = Inr d
             \<longrightarrow> map_of d ''initial'' = Some v)"
proof -
  define ctx where "ctx v = ''Problem Statement:'' @ [newline] @ ps @ [newline, newline]
      @ ''Initial Refinement:'' @ [newline] @ v" for v
  define G where "G v c = (\<forall>q. q \<noteq> Initial \<longrightarrow> fst c \<in> set (runner_prompts q) \<longrightarrow> snd c = ctx v)"
    for v and c :: "string \<times> string"
  define first where "first = bind (ensure_workshop_tasks env)
      (\<lambda>_. initial_block env ps (case existing of None \<Rightarrow> [] | Some d \<Rightarrow> d))"
  define rest where "rest d =
      bind (phase_block env (discovery_context ps d) ''event_storming''
              ''workshop-eventstorming'' ''Event Storming'' d) (\<lambda>d1.
      bind (phase_block env (discovery_context ps d) ''decision_workshop''
              ''workshop-decision'' ''Decision Workshop'' d1) (\<lambda>d2.
        phase_block env (discovery_context ps d) ''clarify''
              ''workshop-clarify'' ''Clarification'' d2))" for d
  let ?I = "\<lambda>v. Inv (\<lambda>_. True) (G v) (agent_calls st)"
  note F = frame_any[of env "[]"]
  have cd: "continue_discovery env ps existing = bind first rest"
    unfolding first_def rest_def fun_eq_iff by (simp add: continue_discovery_split)
  have G_first: "G v (discovery_prompt, ps)" for v
    using not_later_prompt by (auto simp: G_def)
  have ib: "hoare (?I v) (initial_block env ps d0)
      (\<lambda>d'. map_of d' ''initial'' \<noteq> None
            \<and> (\<forall>k. k \<noteq> ''initial'' \<longrightarrow> map_of d' k = map_of d0 k))" for v d0
    by (rule hoare_initial_block[OF F]) (simp_all add: G_first)
  have h_first: "hoare (?I v) first (\<lambda>d. map_of d ''initial'' \<noteq> None)" for v
    unfolding first_def
    by (intro hoare_seq hoare_ensure_workshop_tasks[OF F] hoare_weaken[OF ib]) simp_all
  have h_rest: "hoare (?I v) (rest d) (\<lambda>d'. map_of d' ''initial'' = Some v)"
    if d: "map_of d ''initial'' = Some v" for v d
  proof -
    have c: "discovery_context ps d = ctx v"
      by (simp add: discovery_context_def ctx_def d)
    have blk: "hoare (?I v) (phase_block env (ctx v) key i name d0)
        (\<lambda>d'. \<forall>k. k \<noteq> key \<longrightarrow> map_of d' k = map_of d0 k)"
      if "i \<noteq> []" for key i name d0
      using that by (intro hoare_phase_block[OF F]) (simp_all add: G_def)
    show ?thesis
      unfolding rest_def c
      apply (rule hoare_bind[OF blk])
       apply simp
      apply (rule hoare_bind[OF blk])
       apply simp
      apply (rule hoare_weaken[OF blk])
       apply simp
      apply (simp add: d)
      done
  qed
  have start: "?I v st" for v
    by (simp add: Inv_def)
  have calls: "\<forall>q c. q \<noteq> Initial \<and> c \<in> set (new_calls st s') \<and> fst c \<in> set (runner_prompts q)
      \<longrightarrow> snd c = ctx v" if "?I v s'" for v s'
    using Inv_new_calls[OF that] by (auto simp: list_all_iff G_def)
  obtain r1 s1 where f: "first st = (r1, s1)"
    by (cases "first st")
  have s1: "?I v s1" for v
    using h_first[of v] start[of v] f by (auto simp: hoare_def)
  show ?thesis
  proof (cases r1)
    case (Inl e)
    then have "continue_discovery env ps existing st = (Inl e, s1)"
      by (simp add: cd bind_def f)
    with calls[OF s1, of "[]"] show ?thesis
      unfolding ctx_def by (intro exI[of _ "[]"]) simp
  next
    case (Inr d)
    from f Inr have "fst (first st) = Inr d"
      by simp
    with h_first[of "[]"] start[of "[]"] have "map_of d ''initial'' \<noteq> None"
      unfolding hoare_def by blast
    then obtain v where v: "map_of d ''initial'' = Some v"
      by blast
    have run: "continue_discovery env ps existing st = rest d s1"
      by (simp add: cd bind_def f Inr)
    from h_rest[OF v] s1[of v]
    have "?I v (snd (rest d s1))"
      and "\<And>d'. fst (rest d s1) = Inr d' \<Longrightarrow> map_of d' ''initial'' = Some v"
      unfolding hoare_def by blast+
    with calls[of v "snd (rest d s1)"] show ?thesis
      unfolding ctx_def run by (intro exI[of _ v]) simp
  qed
qed

theorem continue_discovery_context_witness:
  "list_all (\<lambda>c. snd c = ''Problem Statement:\<newline>P\<newline>\<newline>Initial Refinement:\<newline>INIT'')
     (filter (\<lambda>c. fst c \<in> set (runner_prompts Event_storming @ runner_prompts Decision_workshop
                                   @ runner_prompts Clarify))
        (new_calls (start Map.empty [])
           (snd (continue_discovery quiet_env ''P'' None (start Map.empty [])))))
   \<and> length (new_calls (start Map.empty [])
        (snd (continue_discovery quiet_env ''P'' None (start Map.empty [])))) = 7
   \<and> fst (continue_discovery quiet_env ''P'' None (start Map.empty []))
     = Inr [(''initial'', ''INIT''), (''event_storming'', ''EVENTS''),
            (''decision_workshop'', ''DECISIONS''), (''clarify'', ''CLARIFIED'')]"
proof -
  let ?r = "continue_discovery quiet_env ''P'' None (start Map.empty [])"
  have r: "fst ?r = Inr [(''initial'', ''INIT''), (''event_storming'', ''EVENTS''),
            (''decision_workshop'', ''DECISIONS''), (''clarify'', ''CLARIFIED'')]"
    by code_simp
  have n: "length (new_calls (start Map.empty []) (snd ?r)) = 7"
    by code_simp
  from continue_discovery_context [of "start Map.empty []" quiet_env "''P''" None]
  obtain v where c: "\<And>q c. q \<noteq> Initial \<Longrightarrow> c \<in> set (new_calls (start Map.empty []) (snd ?r))
        \<Longrightarrow> fst c \<in> set (runner_prompts q)
        \<Longrightarrow> snd c = ''Problem Statement:'' @ [newline] @ ''P'' @ [newline, newline]
                         @ ''Initial Refinement:'' @ [newline] @ v"
    and d: "\<And>d. fst ?r = Inr d \<Longrightarrow> map_of d ''initial'' = Some v"
    by blast
  from d[OF r] have v: "v = ''INIT''"
    by simp
  have e: "''Problem Statement:'' @ [newline] @ ''P'' @ [newline, newline]
      @ ''Initial Refinement:'' @ [newline] @ ''INIT''
      = ''Problem Statement:\<newline>P\<newline>\<newline>Initial Refinement:\<newline>INIT''"
    by (simp add: newline_def)
  have "snd c = ''Problem Statement:\<newline>P\<newline>\<newline>Initial Refinement:\<newline>INIT''"
    if "c \<in> set (new_calls (start Map.empty []) (snd ?r))"
      and "fst c \<in> set (runner_prompts Event_storming @ runner_prompts Decision_workshop
                           @ runner_prompts Clarify)" for c
  proof -
    from that(2) consider "fst c \<in> set (runner_prompts Event_storming)"
      | "fst c \<in> set (runner_prompts Decision_workshop)" | "fst c \<in> set (runner_prompts Clarify)"
      by auto
    then show ?thesis
    proof cases
      case 1
      from c[of Event_storming c, OF _ that(1) 1] show ?thesis
        unfolding v e by simp
    next
      case 2
      from c[of Decision_workshop c, OF _ that(1) 2] show ?thesis
        unfolding v e by simp
    next
      case 3
      from c[of Clarify c, OF _ that(1) 3] show ?thesis
        unfolding v e by simp
    qed
  qed
  then have "list_all (\<lambda>c. snd c = ''Problem Statement:\<newline>P\<newline>\<newline>Initial Refinement:\<newline>INIT'')
     (filter (\<lambda>c. fst c \<in> set (runner_prompts Event_storming @ runner_prompts Decision_workshop
                                   @ runner_prompts Clarify))
        (new_calls (start Map.empty []) (snd ?r)))"
    by (simp add: list_all_iff)
  with n r show ?thesis
    by (intro conjI)
qed

end
